theory Spec2Isabelle
  imports Main "HOL-Library.Char_ord" "HOL-Library.List_Lexorder"
begin

section \<open>Text primitives of the Python runtime\<close>

text \<open>
  Both scripts work on Python \<open>str\<close> values.  A text is modelled as a \<open>string\<close>
  whose characters are the code points below 256; the character classes below are the
  ones Python uses on that range (\<open>str.isspace\<close>, the line boundaries of
  \<open>str.splitlines\<close>, and the classes \<open>\s\<close>, \<open>\d\<close>, \<open>\w\<close> of \<open>re\<close>).
\<close>

definition isspace :: "char \<Rightarrow> bool" where
  "isspace c = (c \<in> set [CHR 0x09, CHR 0x0A, CHR 0x0B, CHR 0x0C, CHR 0x0D,
                          CHR 0x1C, CHR 0x1D, CHR 0x1E, CHR 0x1F, CHR 0x20,
                          CHR 0x85, CHR 0xA0])"

definition is_linebreak :: "char \<Rightarrow> bool" where
  "is_linebreak c = (c \<in> set [CHR 0x0A, CHR 0x0B, CHR 0x0C, CHR 0x0D,
                               CHR 0x1C, CHR 0x1D, CHR 0x1E, CHR 0x85])"

text \<open>\<open>str.splitlines()\<close>: a carriage return followed by a line feed is one boundary, and
  a boundary at the very end of the text opens no further line.\<close>

fun splitlines :: "string \<Rightarrow> string list" where
  "splitlines [] = []"
| "splitlines [c] = (if is_linebreak c then [[]] else [[c]])"
| "splitlines (c # d # cs) =
     (if c = CHR 0x0D \<and> d = CHR 0x0A then [] # splitlines cs
      else if is_linebreak c then [] # splitlines (d # cs)
      else (case splitlines (d # cs) of
              [] \<Rightarrow> [[c]]
            | l # ls \<Rightarrow> (c # l) # ls))"

text \<open>\<open>str.strip()\<close>, \<open>str.lstrip("#")\<close>, \<open>str.startswith\<close> and the substring test
  \<open>sub in s\<close>.\<close>

definition strip :: "string \<Rightarrow> string" where
  "strip s = rev (dropWhile isspace (rev (dropWhile isspace s)))"

definition lstrip_hash :: "string \<Rightarrow> string" where
  "lstrip_hash s = dropWhile (\<lambda>c. c = CHR ''#'') s"

definition startswith :: "string \<Rightarrow> string \<Rightarrow> bool" where
  "startswith s p = (take (length p) s = p)"

primrec contains :: "string \<Rightarrow> string \<Rightarrow> bool" where
  "contains [] sub = (sub = [])"
| "contains (c # cs) sub = (startswith (c # cs) sub \<or> contains cs sub)"

section \<open>discover\_project.py: heading extraction\<close>

record heading =
  level :: nat
  title :: string

datatype error = FileNotFoundError string | UnicodeDecodeError string | ValueError string

text \<open>The loop of \<open>_extract_headings\<close> over the lines of the text, with the list
  \<open>headings\<close> it appends to.\<close>

fun headings_loop :: "string list \<Rightarrow> heading list \<Rightarrow> heading list" where
  "headings_loop [] headings = headings"
| "headings_loop (line # rest) headings =
     (let stripped = strip line in
      if startswith stripped ''#'' then
        (let level = length stripped - length (lstrip_hash stripped);
             title = strip (lstrip_hash stripped)
         in if title \<noteq> [] then
              headings_loop rest (headings @ [\<lparr>level = level, title = title\<rparr>])
            else headings_loop rest headings)
      else headings_loop rest headings)"

text \<open>\<open>_extract_headings(md_file)\<close>: the argument is the outcome of
  \<open>md_file.read_text(encoding="utf-8")\<close>; a decoding or operating-system error is caught
  and gives the empty list.\<close>

definition extract_headings :: "error + string \<Rightarrow> heading list" where
  "extract_headings md_file =
     (case md_file of
        Inl e \<Rightarrow> []
      | Inr text \<Rightarrow> headings_loop (splitlines text) [])"

text \<open>The specification's reading of a heading line: after trimming, one or more
  \<open>#\<close> characters followed by text that is non-empty after trimming.\<close>

definition leading_hashes :: "string \<Rightarrow> nat" where
  "leading_hashes s = length (takeWhile (\<lambda>c. c = CHR ''#'') s)"

definition is_heading_line :: "string \<Rightarrow> bool" where
  "is_heading_line line =
     (1 \<le> leading_hashes (strip line)
      \<and> strip (drop (leading_hashes (strip line)) (strip line)) \<noteq> [])"

definition heading_of :: "string \<Rightarrow> heading" where
  "heading_of line =
     \<lparr>level = leading_hashes (strip line),
      title = strip (drop (leading_hashes (strip line)) (strip line))\<rparr>"

section \<open>The regular expressions of the \<open>re\<close> module\<close>

text \<open>
  The patterns the scripts pass to \<open>re.search\<close>, \<open>re.match\<close> and \<open>re.findall\<close> are
  built from literal characters, the classes \<open>\s\<close>, \<open>\d\<close>, \<open>\w\<close>, bracketed sets,
  alternation and the repetitions \<open>*\<close>, \<open>+\<close>, \<open>{n}\<close>.  A pattern is a value of
  \<open>rexp\<close>; matching runs by derivatives, one character at a time.
\<close>

datatype rexp =
    Zero
  | Eps
  | Atom "char \<Rightarrow> bool"
  | Seq rexp rexp
  | Alt rexp rexp
  | Star rexp

definition Chr :: "char \<Rightarrow> rexp" where
  "Chr c = Atom (\<lambda>d. d = c)"

primrec Lit :: "string \<Rightarrow> rexp" where
  "Lit [] = Eps"
| "Lit (c # cs) = Seq (Chr c) (Lit cs)"

definition Many1 :: "rexp \<Rightarrow> rexp" where
  "Many1 r = Seq r (Star r)"

primrec Times :: "nat \<Rightarrow> rexp \<Rightarrow> rexp" where
  "Times 0 r = Eps"
| "Times (Suc n) r = Seq r (Times n r)"

primrec Seqs :: "rexp list \<Rightarrow> rexp" where
  "Seqs [] = Eps"
| "Seqs (r # rs) = Seq r (Seqs rs)"

definition isdigit :: "char \<Rightarrow> bool" where
  "isdigit c = (48 \<le> (of_char c :: nat) \<and> (of_char c :: nat) \<le> 57)"

definition isword :: "char \<Rightarrow> bool" where
  "isword c =
     (let n = (of_char c :: nat) in
        (48 \<le> n \<and> n \<le> 57) \<or> (65 \<le> n \<and> n \<le> 90) \<or> n = 95 \<or> (97 \<le> n \<and> n \<le> 122)
        \<or> n = 170 \<or> n = 178 \<or> n = 179 \<or> n = 181 \<or> n = 185 \<or> n = 186
        \<or> (188 \<le> n \<and> n \<le> 190) \<or> (192 \<le> n \<and> n \<le> 214)
        \<or> (216 \<le> n \<and> n \<le> 246) \<or> (248 \<le> n \<and> n \<le> 255))"

primrec nullable :: "rexp \<Rightarrow> bool" where
  "nullable Zero = False"
| "nullable Eps = True"
| "nullable (Atom p) = False"
| "nullable (Seq r s) = (nullable r \<and> nullable s)"
| "nullable (Alt r s) = (nullable r \<or> nullable s)"
| "nullable (Star r) = True"

primrec deriv :: "char \<Rightarrow> rexp \<Rightarrow> rexp" where
  "deriv c Zero = Zero"
| "deriv c Eps = Zero"
| "deriv c (Atom p) = (if p c then Eps else Zero)"
| "deriv c (Seq r s) =
     (if nullable r then Alt (Seq (deriv c r) s) (deriv c s) else Seq (deriv c r) s)"
| "deriv c (Alt r s) = Alt (deriv c r) (deriv c s)"
| "deriv c (Star r) = Seq (deriv c r) (Star r)"

text \<open>\<open>re_fullmatch r s\<close>: the whole of \<open>s\<close> matches \<open>r\<close>.\<close>

primrec re_fullmatch :: "rexp \<Rightarrow> string \<Rightarrow> bool" where
  "re_fullmatch r [] = nullable r"
| "re_fullmatch r (c # cs) = re_fullmatch (deriv c r) cs"

text \<open>\<open>dead r\<close>: no string at all matches \<open>r\<close>; the scan of a candidate match
  stops as soon as the derivative is dead.\<close>

primrec dead :: "rexp \<Rightarrow> bool" where
  "dead Zero = True"
| "dead Eps = False"
| "dead (Atom p) = False"
| "dead (Seq r s) = (dead r \<or> dead s)"
| "dead (Alt r s) = (dead r \<and> dead s)"
| "dead (Star r) = False"

text \<open>\<open>re_match r s\<close>: \<open>re.match(r, s)\<close> finds a match, that is, some prefix of \<open>s\<close>
  matches \<open>r\<close>.\<close>

primrec re_match :: "rexp \<Rightarrow> string \<Rightarrow> bool" where
  "re_match r [] = nullable r"
| "re_match r (c # cs) = (nullable r \<or> (\<not> dead (deriv c r) \<and> re_match (deriv c r) cs))"

text \<open>\<open>re_search r s\<close>: \<open>re.search(r, s)\<close> finds a match, that is, \<open>r\<close> matches at
  some position of \<open>s\<close>.\<close>

primrec re_search :: "rexp \<Rightarrow> string \<Rightarrow> bool" where
  "re_search r [] = nullable r"
| "re_search r (c # cs) = (re_match r (c # cs) \<or> re_search r cs)"

text \<open>A pattern of the shape \<open>^r$\<close> given to \<open>re.match\<close>: \<open>$\<close> stands at the end of
  the string or just before a line feed that ends it.\<close>

definition re_match_anchored :: "rexp \<Rightarrow> string \<Rightarrow> bool" where
  "re_match_anchored r s =
     (re_fullmatch r s \<or> (s \<noteq> [] \<and> last s = CHR 0x0A \<and> re_fullmatch r (butlast s)))"

text \<open>The length of the longest prefix of \<open>s\<close> that matches \<open>r\<close>, if there is one.  The
  patterns given to \<open>re.findall\<close>, and the pattern whose match object is inspected,
  match at most one prefix at any position (each repetition is followed by a character
  outside its class), so this is the end of the match Python finds there.\<close>

primrec match_end :: "rexp \<Rightarrow> string \<Rightarrow> nat option" where
  "match_end r [] = (if nullable r then Some 0 else None)"
| "match_end r (c # cs) =
     (case (if dead (deriv c r) then None else match_end (deriv c r) cs) of
        Some n \<Rightarrow> Some (Suc n)
      | None \<Rightarrow> (if nullable r then Some 0 else None))"

text \<open>The matches of \<open>re.findall(r, s)\<close>: the matched substrings, taken from left to
  right without overlap; after an empty match the scan moves on by one character.\<close>

function findall :: "rexp \<Rightarrow> string \<Rightarrow> string list" where
  "findall r [] = (if nullable r then [[]] else [])"
| "findall r (c # cs) =
     (case match_end r (c # cs) of
        None \<Rightarrow> findall r cs
      | Some 0 \<Rightarrow> [] # findall r cs
      | Some (Suc n) \<Rightarrow> (c # take n cs) # findall r (drop n cs))"
  by pat_completeness auto
termination
  by (relation "measure (\<lambda>(r, s). length s)") auto

text \<open>The match object of \<open>re.search(r, s)\<close>: the matched substring at the leftmost
  position where \<open>r\<close> matches, or \<open>None\<close>.\<close>

primrec search_match :: "rexp \<Rightarrow> string \<Rightarrow> string option" where
  "search_match r [] = (if nullable r then Some [] else None)"
| "search_match r (c # cs) =
     (case match_end r (c # cs) of
        Some n \<Rightarrow> Some (take n (c # cs))
      | None \<Rightarrow> search_match r cs)"

text \<open>The language of a pattern, used to state what the matcher decides.\<close>

inductive_set star :: "string set \<Rightarrow> string set" for A :: "string set" where
  star_nil: "[] \<in> star A"
| star_app: "u \<in> A \<Longrightarrow> v \<in> star A \<Longrightarrow> u @ v \<in> star A"

primrec lang :: "rexp \<Rightarrow> string set" where
  "lang Zero = {}"
| "lang Eps = {[]}"
| "lang (Atom p) = {[c] |c. p c}"
| "lang (Seq r s) = {u @ v |u v. u \<in> lang r \<and> v \<in> lang s}"
| "lang (Alt r s) = lang r \<union> lang s"
| "lang (Star r) = star (lang r)"

section \<open>check-spec-drift-example.py: counting the rows of a specification table\<close>

text \<open>The separator pattern \<open>^\|[\s\-|]+\|$\<close> of \<open>_count_table_rows\<close>.\<close>

definition separator_class :: "char \<Rightarrow> bool" where
  "separator_class c = (isspace c \<or> c = CHR ''-'' \<or> c = CHR ''|'')"

definition separator_pattern :: rexp where
  "separator_pattern = Seq (Chr CHR ''|'') (Seq (Many1 (Atom separator_class)) (Chr CHR ''|''))"

text \<open>The loop of \<open>_count_table_rows\<close> over the lines, with its three variables
  \<open>in_section\<close>, \<open>in_table\<close> and \<open>count\<close>; a \<open>break\<close> returns the count reached.\<close>

fun table_rows_loop ::
  "rexp \<Rightarrow> rexp \<Rightarrow> string list \<Rightarrow> bool \<Rightarrow> bool \<Rightarrow> nat \<Rightarrow> nat" where
  "table_rows_loop section_pattern stop_pattern [] in_section in_table count = count"
| "table_rows_loop section_pattern stop_pattern (line # rest) in_section in_table count =
     (if \<not> in_section then
        (if re_search section_pattern line
         then table_rows_loop section_pattern stop_pattern rest True in_table count
         else table_rows_loop section_pattern stop_pattern rest in_section in_table count)
      else if re_search stop_pattern line then count
      else
        (let stripped = strip line in
         if startswith stripped ''|'' \<and> \<not> re_match_anchored separator_pattern stripped then
           (if in_table
            then table_rows_loop section_pattern stop_pattern rest in_section in_table (count + 1)
            else table_rows_loop section_pattern stop_pattern rest in_section True count)
         else if in_table \<and> \<not> startswith stripped ''|'' then count
         else table_rows_loop section_pattern stop_pattern rest in_section in_table count))"

definition count_table_rows :: "string \<Rightarrow> rexp \<Rightarrow> rexp \<Rightarrow> nat" where
  "count_table_rows text section_pattern stop_pattern =
     table_rows_loop section_pattern stop_pattern (splitlines text) False False 0"




text \<open>The section patterns of the \<open>_count_spec_*\<close> functions.\<close>

definition ws1 :: rexp where
  "ws1 = Many1 (Atom isspace)"

definition pattern_api_endpoint :: rexp where
  "pattern_api_endpoint =
     Seqs [Lit ''####'', ws1, Lit ''API'', ws1, Lit ''Endpoint'', ws1, Lit ''Integration'']"

definition pattern_monthly_batch :: rexp where
  "pattern_monthly_batch =
     Seqs [Lit ''####'', ws1, Lit ''Monthly'', ws1, Lit ''Rank'', ws1, Lit ''Batch'']"

definition pattern_3_2 :: rexp where
  "pattern_3_2 = Seqs [Lit ''###'', ws1, Lit ''3.2'']"

definition pattern_shared_layer :: rexp where
  "pattern_shared_layer =
     Seqs [Lit ''###'', ws1, Lit ''3.2'', ws1, Lit ''Shared'', ws1, Lit ''Layer'', ws1,
           Lit ''Modules'']"

definition pattern_3_3 :: rexp where
  "pattern_3_3 = Seqs [Lit ''###'', ws1, Lit ''3.3'']"

definition pattern_dynamodb :: rexp where
  "pattern_dynamodb = Seqs [Lit ''###'', ws1, Lit ''3.3'', ws1, Lit ''DynamoDB'']"

definition pattern_3_4 :: rexp where
  "pattern_3_4 = Seqs [Lit ''###'', ws1, Lit ''3.4'']"

definition count_spec_lambda_functions :: "string \<Rightarrow> nat" where
  "count_spec_lambda_functions overview_text =
     (let api_count = count_table_rows overview_text pattern_api_endpoint pattern_monthly_batch;
          batch_count = count_table_rows overview_text pattern_monthly_batch pattern_3_2
      in api_count + batch_count)"

definition count_spec_layer_modules :: "string \<Rightarrow> nat" where
  "count_spec_layer_modules overview_text =
     count_table_rows overview_text pattern_shared_layer pattern_3_3"

definition count_spec_dynamodb_tables :: "string \<Rightarrow> nat" where
  "count_spec_dynamodb_tables overview_text =
     count_table_rows overview_text pattern_dynamodb pattern_3_4"

section \<open>check-spec-drift-example.py: name coverage\<close>

text \<open>\<open>name.replace(".py", "")\<close>: every occurrence of \<open>.py\<close> is removed, scanning from
  the left without overlap.\<close>

fun replace_dot_py :: "string \<Rightarrow> string" where
  "replace_dot_py (a # b # c # rest) =
     (if a = CHR ''.'' \<and> b = CHR ''p'' \<and> c = CHR ''y'' then replace_dot_py rest
      else a # replace_dot_py (b # c # rest))"
| "replace_dot_py s = s"

text \<open>\<open>"\n".join(spec_texts)\<close>.\<close>

primrec join_newline :: "string list \<Rightarrow> string" where
  "join_newline [] = []"
| "join_newline (t # ts) = (if ts = [] then t else t @ [CHR 0x0A] @ join_newline ts)"

fun find_missing_loop :: "string list \<Rightarrow> string \<Rightarrow> string list \<Rightarrow> string list" where
  "find_missing_loop [] combined missing = missing"
| "find_missing_loop (name # names) combined missing =
     (let search_name = replace_dot_py name in
      if \<not> contains combined search_name
      then find_missing_loop names combined (missing @ [name])
      else find_missing_loop names combined missing)"

definition find_missing_in_spec :: "string list \<Rightarrow> string list \<Rightarrow> string list" where
  "find_missing_in_spec names spec_texts =
     find_missing_loop names (join_newline spec_texts) []"

text \<open>The specification's bare name: the name with its file extension \<open>.py\<close> stripped
  from the end.\<close>

definition endswith :: "string \<Rightarrow> string \<Rightarrow> bool" where
  "endswith s p = (length p \<le> length s \<and> drop (length s - length p) s = p)"

definition strip_extension :: "string \<Rightarrow> string" where
  "strip_extension name =
     (if endswith name ''.py'' then take (length name - 3) name else name)"

section \<open>check-spec-drift-example.py: dates\<close>

text \<open>A \<open>datetime\<close> value, the proleptic Gregorian ordinal of its date as
  \<open>datetime\<close> computes it, and the difference of two values.  A \<open>timedelta\<close> is
  represented by its length in microseconds, which is what its comparison compares.\<close>

record datetime =
  year :: int
  month :: int
  day :: int
  hour :: int
  minute :: int
  second :: int
  microsecond :: int

definition is_leap :: "int \<Rightarrow> bool" where
  "is_leap y = (y mod 4 = 0 \<and> (y mod 100 \<noteq> 0 \<or> y mod 400 = 0))"

definition DAYS_IN_MONTH :: "int list" where
  "DAYS_IN_MONTH = [-1, 31, 28, 31, 30, 31, 30, 31, 31, 30, 31, 30, 31]"

definition DAYS_BEFORE_MONTH :: "int list" where
  "DAYS_BEFORE_MONTH = [-1, 0, 31, 59, 90, 120, 151, 181, 212, 243, 273, 304, 334]"

definition days_in_month :: "int \<Rightarrow> int \<Rightarrow> int" where
  "days_in_month y m = (if m = 2 \<and> is_leap y then 29 else DAYS_IN_MONTH ! nat m)"

definition days_before_year :: "int \<Rightarrow> int" where
  "days_before_year y = (let y1 = y - 1 in y1 * 365 + y1 div 4 - y1 div 100 + y1 div 400)"

definition days_before_month :: "int \<Rightarrow> int \<Rightarrow> int" where
  "days_before_month y m = DAYS_BEFORE_MONTH ! nat m + (if 2 < m \<and> is_leap y then 1 else 0)"

definition ymd2ord :: "int \<Rightarrow> int \<Rightarrow> int \<Rightarrow> int" where
  "ymd2ord y m d = days_before_year y + days_before_month y m + d"

definition toordinal :: "datetime \<Rightarrow> int" where
  "toordinal dt = ymd2ord (year dt) (month dt) (day dt)"

definition datetime_sub :: "datetime \<Rightarrow> datetime \<Rightarrow> int" where
  "datetime_sub a b =
     (let days1 = toordinal a; days2 = toordinal b;
          secs1 = second a + minute a * 60 + hour a * 3600;
          secs2 = second b + minute b * 60 + hour b * 3600
      in ((days1 - days2) * 86400 + (secs1 - secs2)) * 1000000
           + (microsecond a - microsecond b))"

definition timedelta_days :: "int \<Rightarrow> int" where
  "timedelta_days n = n * 86400 * 1000000"

text \<open>\<open>datetime.strptime(s, "%Y-%m-%d")\<close> on the strings the caller passes: four
  digits, a dash, two digits, a dash, two digits.  The format accepts a month from
  \<open>01\<close> to \<open>12\<close> and a day from \<open>01\<close> to \<open>31\<close>; the date is then built and must lie in
  the calendar (year at least 1, day within the month).  Each failure is a
  \<open>ValueError\<close>.\<close>

definition digit_value :: "char \<Rightarrow> int" where
  "digit_value c = int (of_char c) - 48"

definition int_of_digits :: "string \<Rightarrow> int" where
  "int_of_digits s = foldl (\<lambda>n c. n * 10 + digit_value c) 0 s"

definition date_shape :: "string \<Rightarrow> bool" where
  "date_shape s =
     (length s = 10 \<and> list_all isdigit (take 4 s) \<and> s ! 4 = CHR ''-''
      \<and> list_all isdigit (take 2 (drop 5 s)) \<and> s ! 7 = CHR ''-''
      \<and> list_all isdigit (drop 8 s))"

definition strptime_ymd :: "string \<Rightarrow> error + datetime" where
  "strptime_ymd s =
     (if \<not> date_shape s then Inl (ValueError s)
      else
        (let y = int_of_digits (take 4 s);
             m = int_of_digits (take 2 (drop 5 s));
             d = int_of_digits (drop 8 s)
         in if m < 1 \<or> 12 < m \<or> d < 1 \<or> 31 < d then Inl (ValueError s)
            else if y < 1 \<or> days_in_month y m < d then Inl (ValueError s)
            else Inr \<lparr>year = y, month = m, day = d,
                      hour = 0, minute = 0, second = 0, microsecond = 0\<rparr>))"

text \<open>The pattern \<open>Last verified:\s*(\d{4}-\d{2}-\d{2})\<close>; its group is the last ten
  characters of the match.\<close>

definition last_verified_pattern :: rexp where
  "last_verified_pattern =
     Seqs [Lit ''Last verified:'', Star (Atom isspace),
           Times 4 (Atom isdigit), Chr CHR ''-'', Times 2 (Atom isdigit), Chr CHR ''-'',
           Times 2 (Atom isdigit)]"

definition parse_last_verified_date :: "string \<Rightarrow> error + datetime option" where
  "parse_last_verified_date spec_text =
     (case search_match last_verified_pattern spec_text of
        None \<Rightarrow> Inr None
      | Some m \<Rightarrow>
          (case strptime_ymd (drop (length m - 10) m) of
             Inl e \<Rightarrow> Inl e
           | Inr dt \<Rightarrow> Inr (Some dt)))"


definition midnight :: "int \<Rightarrow> int \<Rightarrow> int \<Rightarrow> datetime" where
  "midnight y m d =
     \<lparr>year = y, month = m, day = d, hour = 0, minute = 0, second = 0, microsecond = 0\<rparr>"

section \<open>check-spec-drift-example.py: the environment and the main routine\<close>

text \<open>
  The script reads the file system and the clock.  A run is a function of an
  environment: \<open>files\<close> gives the text of each path that exists as a file, \<open>entries\<close>
  gives, for each path that exists as a directory, the names in it in the order the
  file system enumerates them, each with the flag \<open>is_dir\<close>, and \<open>now\<close> is the value of
  \<open>datetime.now()\<close>.  Paths are written relative to \<open>PROJECT_ROOT\<close>.
\<close>

record env =
  files :: "string \<rightharpoonup> string"
  entries :: "string \<rightharpoonup> (string \<times> bool) list"
  now :: datetime

definition LAMBDA_DIR :: string where "LAMBDA_DIR = ''lambda_functions''"
definition LAYER_DIR :: string where "LAYER_DIR = ''lambda_layer/python''"
definition DYNAMODB_TF :: string where "DYNAMODB_TF = ''terraform/dynamodb.tf''"
definition API_GATEWAY_TF :: string where "API_GATEWAY_TF = ''terraform/api_gateway.tf''"
definition OVERVIEW :: string where "OVERVIEW = ''docs/specification/01_overview.md''"
definition BUSINESS :: string where "BUSINESS = ''docs/specification/02_business_spec.md''"
definition TECHNICAL :: string where "TECHNICAL = ''docs/specification/03_technical_spec.md''"

definition IGNORED_FILES :: "string list" where
  "IGNORED_FILES = [''__init__.py'']"

definition IGNORED_DIRS :: "string list" where
  "IGNORED_DIRS = [''__pycache__'', ''__init__.py'']"

text \<open>\<open>path.name\<close>: the last component of a path.\<close>

definition path_name :: "string \<Rightarrow> string" where
  "path_name p = rev (takeWhile (\<lambda>c. c \<noteq> CHR ''/'') (rev p))"

text \<open>\<open>_read(path)\<close>: reading a path that is not there raises; a file that is there
  holds a text.\<close>

definition read :: "env \<Rightarrow> string \<Rightarrow> error + string" where
  "read e path =
     (case files e path of
        None \<Rightarrow> Inl (FileNotFoundError path)
      | Some content \<Rightarrow> Inr content)"

text \<open>\<open>_count_lambda_dirs\<close>: \<open>iterdir\<close> raises when the directory is not there.\<close>

definition count_lambda_dirs :: "env \<Rightarrow> error + string list" where
  "count_lambda_dirs e =
     (case entries e LAMBDA_DIR of
        None \<Rightarrow> Inl (FileNotFoundError LAMBDA_DIR)
      | Some ds \<Rightarrow>
          Inr (sort (map fst (filter (\<lambda>(name, is_dir). is_dir \<and> name \<notin> set IGNORED_DIRS) ds))))"

text \<open>\<open>_count_layer_modules\<close>: \<open>glob("*.py")\<close> yields the names that end in \<open>.py\<close>, and
  nothing when the directory is not there.\<close>

definition count_layer_modules :: "env \<Rightarrow> string list" where
  "count_layer_modules e =
     (case entries e LAYER_DIR of
        None \<Rightarrow> []
      | Some fs \<Rightarrow>
          sort (filter (\<lambda>name. name \<notin> set IGNORED_FILES)
                  (filter (\<lambda>name. endswith name ''.py'') (map fst fs))))"

text \<open>The resource patterns \<open>resource\s+"aws_dynamodb_table"\s+"(\w+)"\<close> and
  \<open>resource\s+"aws_apigatewayv2_route"\s+"(\w+)"\<close>.  With one group, \<open>re.findall\<close>
  returns the group of each match: the word between the last two double quotes.\<close>

definition resource_pattern :: "string \<Rightarrow> rexp" where
  "resource_pattern resource_type =
     Seqs [Lit ''resource'', ws1, Lit ([CHR 0x22] @ resource_type @ [CHR 0x22]), ws1,
           Chr (CHR 0x22), Many1 (Atom isword), Chr (CHR 0x22)]"

definition resource_name :: "string \<Rightarrow> string" where
  "resource_name m = rev (takeWhile isword (tl (rev m)))"

definition count_dynamodb_tables_in_terraform :: "env \<Rightarrow> error + string list" where
  "count_dynamodb_tables_in_terraform e =
     (case read e DYNAMODB_TF of
        Inl err \<Rightarrow> Inl err
      | Inr content \<Rightarrow>
          Inr (map resource_name (findall (resource_pattern ''aws_dynamodb_table'') content)))"

definition count_api_routes_in_terraform :: "env \<Rightarrow> error + string list" where
  "count_api_routes_in_terraform e =
     (case read e API_GATEWAY_TF of
        Inl err \<Rightarrow> Inl err
      | Inr content \<Rightarrow>
          Inr (map resource_name (findall (resource_pattern ''aws_apigatewayv2_route'') content)))"

text \<open>The pattern \<open>###\s+1\.\d+\s+(?:POST|GET)\s+/\<close> of the API sections.\<close>

definition api_section_pattern :: rexp where
  "api_section_pattern =
     Seqs [Lit ''###'', ws1, Lit ''1.'', Many1 (Atom isdigit), ws1,
           Alt (Lit ''POST'') (Lit ''GET''), ws1, Chr CHR ''/'']"

text \<open>What the run prints, line by line, and its counter \<open>warnings\<close>.\<close>

datatype line =
    Banner
  | CountOK string nat nat
  | CountWARN string nat nat
  | NotListedHeader
  | NotListed string
  | DateNotSet string
  | DateStale string datetime
  | Blank
  | ResultAllOK
  | ResultWarnings nat

primrec is_warn :: "line \<Rightarrow> bool" where
  "is_warn Banner = False"
| "is_warn (CountOK category code spec) = False"
| "is_warn (CountWARN category code spec) = True"
| "is_warn NotListedHeader = False"
| "is_warn (NotListed path) = True"
| "is_warn (DateNotSet name) = True"
| "is_warn (DateStale name last_verified) = True"
| "is_warn Blank = False"
| "is_warn ResultAllOK = False"
| "is_warn (ResultWarnings n) = False"

record state =
  out :: "line list"
  warnings :: nat

definition print :: "line \<Rightarrow> state \<Rightarrow> state" where
  "print l st = st\<lparr>out := out st @ [l]\<rparr>"

definition warn :: "state \<Rightarrow> state" where
  "warn st = st\<lparr>warnings := warnings st + 1\<rparr>"

text \<open>One count check: an \<open>[OK]\<close> line, or a \<open>[WARN]\<close> line and \<open>warnings += 1\<close>.\<close>

definition check_count :: "string \<Rightarrow> nat \<Rightarrow> nat \<Rightarrow> state \<Rightarrow> state" where
  "check_count category code_count spec_count st =
     (if code_count = spec_count then print (CountOK category code_count spec_count) st
      else warn (print (CountWARN category code_count spec_count) st))"

text \<open>The two loops that report the names not listed.\<close>

primrec report_not_listed :: "(string \<Rightarrow> string) \<Rightarrow> string list \<Rightarrow> state \<Rightarrow> state" where
  "report_not_listed path [] st = st"
| "report_not_listed path (name # names) st =
     report_not_listed path names (warn (print (NotListed (path name)) st))"

definition coverage_check :: "string list \<Rightarrow> string list \<Rightarrow> state \<Rightarrow> state" where
  "coverage_check missing_lambdas missing_modules st =
     (if missing_lambdas \<noteq> [] \<or> missing_modules \<noteq> [] then
        report_not_listed (\<lambda>name. ''lambda_layer/python/'' @ name) missing_modules
          (report_not_listed (\<lambda>name. ''lambda_functions/'' @ name @ ''/'') missing_lambdas
             (print NotListedHeader st))
      else st)"

text \<open>The body of the freshness loop once the date is parsed, and the loop itself; an
  exception ends the loop with what was printed so far.\<close>

definition freshness_check :: "datetime \<Rightarrow> int \<Rightarrow> string \<Rightarrow> datetime option \<Rightarrow> state \<Rightarrow> state" where
  "freshness_check today threshold name last_verified st =
     (case last_verified of
        None \<Rightarrow> warn (print (DateNotSet name) st)
      | Some lv \<Rightarrow>
          if threshold < datetime_sub today lv then warn (print (DateStale name lv) st)
          else st)"

fun freshness_loop ::
  "env \<Rightarrow> datetime \<Rightarrow> int \<Rightarrow> string list \<Rightarrow> state \<Rightarrow> state \<times> error option" where
  "freshness_loop e today threshold [] st = (st, None)"
| "freshness_loop e today threshold (spec_file # rest) st =
     (case read e spec_file of
        Inl err \<Rightarrow> (st, Some err)
      | Inr spec_text \<Rightarrow>
          (case parse_last_verified_date spec_text of
             Inl err \<Rightarrow> (st, Some err)
           | Inr last_verified \<Rightarrow>
               freshness_loop e today threshold rest
                 (freshness_check today threshold (path_name spec_file) last_verified st)))"

text \<open>The four count checks of \<open>main\<close>, in the order they are printed.\<close>

definition count_checks ::
  "string \<Rightarrow> string \<Rightarrow> string list \<Rightarrow> string list \<Rightarrow> string list \<Rightarrow> string list
     \<Rightarrow> state \<Rightarrow> state" where
  "count_checks overview_text technical_text lambda_dirs layer_modules dynamodb_tables api_routes st =
     (let spec_lambda_count = count_spec_lambda_functions overview_text;
          spec_layer_count = count_spec_layer_modules overview_text;
          spec_dynamodb_count = count_spec_dynamodb_tables overview_text;
          st1 = check_count ''Lambda functions'' (length lambda_dirs) spec_lambda_count st;
          st2 = check_count ''Shared modules'' (length layer_modules) spec_layer_count st1;
          st3 = check_count ''DynamoDB tables'' (length dynamodb_tables) spec_dynamodb_count st2;
          api_sections = findall api_section_pattern technical_text
      in check_count ''API routes'' (length api_routes) (length api_sections) st3)"

text \<open>A run of \<open>main\<close> yields the printed lines and either the exception that ended it
  or the value returned.  The result summary comes last.\<close>

datatype outcome = Raised error | Returned int

definition summary :: "state \<Rightarrow> line list \<times> outcome" where
  "summary st =
     (let st1 = print Blank st;
          st2 = (if warnings st1 = 0 then print ResultAllOK st1
                 else print (ResultWarnings (warnings st1)) st1)
      in (out st2, Returned (if 0 < warnings st2 then 1 else 0)))"

text \<open>\<open>main\<close>: the two reads, the four extractions from the code side, the count
  checks, the coverage check, the freshness loop and the summary.  The first
  exception ends the run.\<close>

definition main :: "env \<Rightarrow> line list \<times> outcome" where
  "main e =
     (let st0 = print Banner \<lparr>out = [], warnings = 0\<rparr> in
      case read e OVERVIEW of Inl err \<Rightarrow> (out st0, Raised err) | Inr overview_text \<Rightarrow>
      case read e TECHNICAL of Inl err \<Rightarrow> (out st0, Raised err) | Inr technical_text \<Rightarrow>
      case count_lambda_dirs e of Inl err \<Rightarrow> (out st0, Raised err) | Inr lambda_dirs \<Rightarrow>
      let layer_modules = count_layer_modules e in
      case count_dynamodb_tables_in_terraform e of
        Inl err \<Rightarrow> (out st0, Raised err) | Inr dynamodb_tables \<Rightarrow>
      case count_api_routes_in_terraform e of
        Inl err \<Rightarrow> (out st0, Raised err) | Inr api_routes \<Rightarrow>
      let st4 = count_checks overview_text technical_text lambda_dirs layer_modules
                  dynamodb_tables api_routes st0;
          missing_lambdas = find_missing_in_spec lambda_dirs [technical_text, overview_text];
          missing_modules = find_missing_in_spec layer_modules [technical_text, overview_text];
          st5 = coverage_check missing_lambdas missing_modules st4;
          today = now e;
          threshold = timedelta_days 30
      in case freshness_loop e today threshold [OVERVIEW, BUSINESS, TECHNICAL] st5 of
           (st6, Some err) \<Rightarrow> (out st6, Raised err)
         | (st6, None) \<Rightarrow> summary st6)"

text \<open>An example project: one lambda function, one shared module, one table and one
  route, all of them listed in the specification, checked at noon of 2026-11-04.\<close>

definition example_overview :: string where
  "example_overview =
     ''#### API Endpoint Integration'' @ [CHR 0x0A] @
     ''| Function | Path |'' @ [CHR 0x0A] @
     ''|---|---|'' @ [CHR 0x0A] @
     ''| fetchRank | /rank |'' @ [CHR 0x0A] @
     ''#### Monthly Rank Batch'' @ [CHR 0x0A] @
     ''### 3.2 Shared Layer Modules'' @ [CHR 0x0A] @
     ''| Module | Role |'' @ [CHR 0x0A] @
     ''|---|---|'' @ [CHR 0x0A] @
     ''| utils | helpers |'' @ [CHR 0x0A] @
     ''### 3.3 DynamoDB Tables'' @ [CHR 0x0A] @
     ''| Table | Key |'' @ [CHR 0x0A] @
     ''|---|---|'' @ [CHR 0x0A] @
     ''| ranks | id |'' @ [CHR 0x0A] @
     ''### 3.4 Other'' @ [CHR 0x0A] @
     ''Last verified: 2026-11-01'' @ [CHR 0x0A]"

definition example_technical :: string where
  "example_technical =
     ''### 1.1 GET /rank'' @ [CHR 0x0A] @
     ''fetchRank, utils'' @ [CHR 0x0A] @
     ''Last verified: 2026-11-01'' @ [CHR 0x0A]"

definition example_business :: string where
  "example_business = ''Last verified: 2026-10-20'' @ [CHR 0x0A]"

definition example_env :: env where
  "example_env =
     \<lparr>files = [OVERVIEW \<mapsto> example_overview,
               BUSINESS \<mapsto> example_business,
               TECHNICAL \<mapsto> example_technical,
               DYNAMODB_TF \<mapsto>
                 ''resource '' @ [CHR 0x22] @ ''aws_dynamodb_table'' @ [CHR 0x22] @ '' ''
                 @ [CHR 0x22] @ ''ranks'' @ [CHR 0x22] @ '' {}'',
               API_GATEWAY_TF \<mapsto>
                 ''resource '' @ [CHR 0x22] @ ''aws_apigatewayv2_route'' @ [CHR 0x22] @ '' ''
                 @ [CHR 0x22] @ ''get_rank'' @ [CHR 0x22] @ '' {}''],
      entries = [LAMBDA_DIR \<mapsto> [(''fetchRank'', True), (''__pycache__'', True)],
                 LAYER_DIR \<mapsto> [(''utils.py'', False), (''__init__.py'', False)]],
      now = \<lparr>year = 2026, month = 11, day = 4,
              hour = 12, minute = 0, second = 0, microsecond = 0\<rparr>\<rparr>"

text \<open>A project without components: the three documents are as given, the lambda
  directory is empty, the layer directory is absent and the two terraform files are
  empty.\<close>

definition empty_project :: "(string \<rightharpoonup> string) \<Rightarrow> datetime \<Rightarrow> env" where
  "empty_project docs today =
     \<lparr>files = docs(DYNAMODB_TF \<mapsto> [], API_GATEWAY_TF \<mapsto> []),
      entries = [LAMBDA_DIR \<mapsto> []],
      now = today\<rparr>"

definition noon :: "int \<Rightarrow> int \<Rightarrow> int \<Rightarrow> datetime" where
  "noon y m d =
     \<lparr>year = y, month = m, day = d, hour = 12, minute = 0, second = 0, microsecond = 0\<rparr>"

text \<open>The counter \<open>warnings\<close> agrees with the lines printed so far.\<close>

definition counted :: "state \<Rightarrow> bool" where
  "counted st = (warnings st = length (filter is_warn (out st)))"


text \<open>The time of day of a \<open>datetime\<close> value lies within one day.\<close>

definition valid_time :: "datetime \<Rightarrow> bool" where
  "valid_time dt =
     (0 \<le> hour dt \<and> hour dt \<le> 23 \<and> 0 \<le> minute dt \<and> minute dt \<le> 59
      \<and> 0 \<le> second dt \<and> second dt \<le> 59
      \<and> 0 \<le> microsecond dt \<and> microsecond dt \<le> 999999)"

definition is_midnight :: "datetime \<Rightarrow> bool" where
  "is_midnight dt = (hour dt = 0 \<and> minute dt = 0 \<and> second dt = 0 \<and> microsecond dt = 0)"


section \<open>discover\_project.py: the source scan\<close>

text \<open>
  The directory tree under the project root: a file has a name, a directory has a name
  and its entries in the order the file system enumerates them.  \<open>root_parts\<close> are the
  components of the resolved root path; the components of a path under the root are
  \<open>root_parts\<close> followed by the path relative to the root.
\<close>

datatype node = File string | Dir string "node list"

primrec node_name :: "node \<Rightarrow> string" where
  "node_name (File n) = n"
| "node_name (Dir n cs) = n"

primrec is_file :: "node \<Rightarrow> bool" where
  "is_file (File n) = True"
| "is_file (Dir n cs) = False"

primrec is_dir :: "node \<Rightarrow> bool" where
  "is_dir (File n) = False"
| "is_dir (Dir n cs) = True"

primrec dir_entries :: "node \<Rightarrow> node list" where
  "dir_entries (File n) = []"
| "dir_entries (Dir n cs) = cs"

text \<open>\<open>d.rglob(pattern)\<close> for a pattern that names one path component: the paths below
  \<open>d\<close>, files and directories alike, whose name matches; first the matching entries of
  \<open>d\<close> itself, then those of its subdirectories in turn.  A path is given by its
  components relative to \<open>d\<close>, together with the flag \<open>is_file\<close>.\<close>

fun rglob :: "(string \<Rightarrow> bool) \<Rightarrow> node \<Rightarrow> (string list \<times> bool) list" where
  "rglob matches (File n) = []"
| "rglob matches (Dir n cs) =
     map (\<lambda>c. ([node_name c], is_file c)) (filter (\<lambda>c. matches (node_name c)) cs)
     @ concat (map (\<lambda>c. map (\<lambda>(p, f). (node_name c # p, f)) (rglob matches c)) cs)"

text \<open>\<open>str(path)\<close> of a relative path, and \<open>path.suffix\<close> of a name.\<close>

fun join_path :: "string list \<Rightarrow> string" where
  "join_path [] = ''.''"
| "join_path [p] = p"
| "join_path (p # q # ps) = p @ ''/'' @ join_path (q # ps)"

definition path_suffix :: "string \<Rightarrow> string" where
  "path_suffix name =
     (let ext = rev (takeWhile (\<lambda>c. c \<noteq> CHR ''.'') (rev name)) in
      if CHR ''.'' \<in> set name \<and> ext \<noteq> [] \<and> length ext + 1 < length name
      then CHR ''.'' # ext else [])"

definition language_extensions :: "(string \<times> string) list" where
  "language_extensions =
     [(''.py'', ''Python''), (''.js'', ''JavaScript''), (''.ts'', ''TypeScript''),
      (''.tsx'', ''TypeScript (React)''), (''.jsx'', ''JavaScript (React)''),
      (''.go'', ''Go''), (''.rs'', ''Rust''), (''.java'', ''Java''), (''.rb'', ''Ruby''),
      (''.php'', ''PHP''), (''.cs'', ''C#''), (''.swift'', ''Swift''), (''.kt'', ''Kotlin'')]"

definition ignore_dirs :: "string list" where
  "ignore_dirs =
     [''.git'', ''node_modules'', ''__pycache__'', ''.venv'', ''venv'',
      ''.tox'', ''.mypy_cache'', ''.pytest_cache'', ''dist'', ''build'',
      ''.next'', ''.nuxt'', ''target'', ''vendor'', ''.terraform'',
      ''coverage'', ''.coverage'', ''htmlcov'', ''egg-info'']"

definition entry_point_patterns :: "string list" where
  "entry_point_patterns =
     [''main.py'', ''app.py'', ''index.py'', ''handler.py'', ''wsgi.py'',
      ''index.js'', ''index.ts'', ''app.js'', ''app.ts'', ''server.js'', ''server.ts'',
      ''main.go'', ''main.rs'', ''Main.java'', ''Program.cs'',
      ''manage.py'', ''setup.py'']"

definition shared_patterns :: "string list" where
  "shared_patterns =
     [''lib'', ''shared'', ''common'', ''utils'', ''helpers'', ''core'',
      ''lambda_layer'', ''layer'', ''packages'', ''internal'']"

text \<open>\<open>any(part in ignore_dirs for part in f.parts)\<close>.\<close>

definition ignored :: "string list \<Rightarrow> string list \<Rightarrow> bool" where
  "ignored root_parts rel = (\<exists>part\<in>set (root_parts @ rel). part \<in> set ignore_dirs)"

text \<open>The first loop: the top-level directories, in sorted order, that are not
  dot-named or ignored and below which \<open>rglob("*" + ext)\<close> yields something for some
  extension of the table.\<close>

definition has_source :: "node \<Rightarrow> bool" where
  "has_source d =
     (\<exists>ext\<in>set (map fst language_extensions). rglob (\<lambda>name. endswith name ext) d \<noteq> [])"

fun source_dirs_loop :: "node list \<Rightarrow> string list \<Rightarrow> string list" where
  "source_dirs_loop [] source_dirs = source_dirs"
| "source_dirs_loop (d # ds) source_dirs =
     (if \<not> is_dir d \<or> startswith (node_name d) ''.'' \<or> node_name d \<in> set ignore_dirs
      then source_dirs_loop ds source_dirs
      else if has_source d then source_dirs_loop ds (source_dirs @ [node_name d])
      else source_dirs_loop ds source_dirs)"

text \<open>The second loop: the files counted by language.  The dictionary \<open>lang_counts\<close> is
  an association list in insertion order.\<close>

fun bump :: "(string \<times> nat) list \<Rightarrow> string \<Rightarrow> (string \<times> nat) list" where
  "bump [] language = [(language, 1)]"
| "bump ((k, n) # kvs) language = (if k = language then (k, n + 1) # kvs else (k, n) # bump kvs language)"

fun lang_counts_loop ::
  "string list \<Rightarrow> (string list \<times> bool) list \<Rightarrow> (string \<times> nat) list \<Rightarrow> (string \<times> nat) list" where
  "lang_counts_loop root_parts [] lang_counts = lang_counts"
| "lang_counts_loop root_parts ((rel, file) # fs) lang_counts =
     (if ignored root_parts rel then lang_counts_loop root_parts fs lang_counts
      else if file \<and> path_suffix (last rel) \<in> set (map fst language_extensions) then
        (case map_of language_extensions (path_suffix (last rel)) of
           Some language \<Rightarrow> lang_counts_loop root_parts fs (bump lang_counts language)
         | None \<Rightarrow> lang_counts_loop root_parts fs lang_counts)
      else lang_counts_loop root_parts fs lang_counts)"

text \<open>The third loop: the entry points, pattern by pattern.\<close>

definition entry_points_of :: "string list \<Rightarrow> node \<Rightarrow> string \<Rightarrow> string list" where
  "entry_points_of root_parts root pattern =
     map (\<lambda>(rel, file). join_path rel)
       (filter (\<lambda>(rel, file). \<not> ignored root_parts rel) (rglob (\<lambda>name. name = pattern) root))"

text \<open>The fourth loop: the files with a known suffix under each shared directory that
  exists at the root.\<close>

definition shared_modules_of :: "string list \<Rightarrow> node \<Rightarrow> string \<Rightarrow> string list" where
  "shared_modules_of root_parts root name =
     (case find (\<lambda>c. node_name c = name) (dir_entries root) of
        None \<Rightarrow> []
      | Some d \<Rightarrow>
          if is_dir d then
            map (\<lambda>(rel, file). join_path (name # rel))
              (filter (\<lambda>(rel, file). file \<and> path_suffix (last rel) \<in> set (map fst language_extensions)
                                      \<and> \<not> ignored root_parts (name # rel))
                 (rglob (\<lambda>name. True) d))
          else [])"

text \<open>\<open>max(lang_counts, key=lang_counts.get)\<close>: the first key with the largest count.\<close>

fun max_key :: "(string \<times> nat) list \<Rightarrow> string \<times> nat \<Rightarrow> string" where
  "max_key [] best = fst best"
| "max_key ((k, n) # kvs) best = (if snd best < n then max_key kvs (k, n) else max_key kvs best)"

record source_code =
  primary_language :: "string option"
  language_file_counts :: "(string \<times> nat) list"
  source_directories :: "string list"
  entry_points :: "string list"
  shared_modules :: "string list"

definition discover_source_code :: "string list \<Rightarrow> node \<Rightarrow> source_code" where
  "discover_source_code root_parts root =
     (let source_dirs = source_dirs_loop (sort_key node_name (dir_entries root)) [];
          lang_counts = lang_counts_loop root_parts (rglob (\<lambda>name. True) root) [];
          entry_points = concat (map (entry_points_of root_parts root) entry_point_patterns);
          shared_modules = concat (map (shared_modules_of root_parts root) shared_patterns);
          primary_language =
            (case lang_counts of [] \<Rightarrow> None | kv # kvs \<Rightarrow> Some (max_key kvs kv))
      in \<lparr>primary_language = primary_language,
          language_file_counts = lang_counts,
          source_directories = sort source_dirs,
          entry_points = sort entry_points,
          shared_modules = sort shared_modules\<rparr>)"

text \<open>The directory tree as the file system holds it: the names in one directory are
  distinct, non-empty and free of \<open>/\<close>.\<close>

fun wf_node :: "node \<Rightarrow> bool" where
  "wf_node (File n) = True"
| "wf_node (Dir n cs) =
     (distinct (map node_name cs)
      \<and> (\<forall>c\<in>set cs. node_name c \<noteq> [] \<and> CHR ''/'' \<notin> set (node_name c) \<and> wf_node c))"

text \<open>The content of a directory, whatever the order of enumeration: the set of the
  paths below it, each with the flag \<open>is_file\<close>.\<close>

fun paths_of :: "node \<Rightarrow> (string list \<times> bool) set" where
  "paths_of (File n) = {}"
| "paths_of (Dir n cs) =
     (\<Union>c\<in>set cs. insert ([node_name c], is_file c)
                     ((\<lambda>(p, f). (node_name c # p, f)) ` paths_of c))"

text \<open>The specification's source directory: below it there is a file whose suffix is in
  the extension table.\<close>

fun has_source_file :: "node \<Rightarrow> bool" where
  "has_source_file (File n) = False"
| "has_source_file (Dir n cs) =
     (\<exists>c\<in>set cs. (is_file c \<and> path_suffix (node_name c) \<in> set (map fst language_extensions))
                  \<or> has_source_file c)"

text \<open>The components of a relative path: there is at least one, and none holds a
  \<open>/\<close>.\<close>

definition good_path :: "string list \<Rightarrow> bool" where
  "good_path p = (p \<noteq> [] \<and> (\<forall>x\<in>set p. CHR ''/'' \<notin> set x))"

text \<open>The test the first loop applies to an entry of the root.\<close>

definition source_dir :: "node \<Rightarrow> bool" where
  "source_dir d = (is_dir d \<and> \<not> startswith (node_name d) ''.''
                   \<and> node_name d \<notin> set ignore_dirs \<and> has_source d)"

text \<open>The test the fourth loop applies to a path below the shared directory \<open>name\<close>.\<close>

definition shared_file :: "string list \<Rightarrow> string \<Rightarrow> string list \<times> bool \<Rightarrow> bool" where
  "shared_file rp name = (\<lambda>(rel, file). file
      \<and> path_suffix (last rel) \<in> set (map fst language_extensions)
      \<and> \<not> ignored rp (name # rel))"

text \<open>A tree in which a name that ends like a source file belongs to a file, and is
  more than the bare extension.\<close>

definition plain_tree :: "node \<Rightarrow> bool" where
  "plain_tree d =
     (\<forall>(rel, file)\<in>paths_of d. \<forall>ext\<in>set (map fst language_extensions).
        endswith (last rel) ext \<longrightarrow> file \<and> last rel \<noteq> ext)"

section \<open>Heading extraction: proofs\<close>

lemma lstrip_hash_drop: "lstrip_hash s = drop (leading_hashes s) s"
  by (simp add: lstrip_hash_def leading_hashes_def dropWhile_eq_drop)

lemma leading_hashes_le: "leading_hashes s \<le> length s"
  unfolding leading_hashes_def by (rule length_takeWhile_le)

lemma length_minus_lstrip_hash: "length s - length (lstrip_hash s) = leading_hashes s"
  using leading_hashes_le [of s] by (simp add: lstrip_hash_drop)

lemma startswith_hash_iff: "startswith s ''#'' \<longleftrightarrow> 1 \<le> leading_hashes s"
  by (cases s) (auto simp: startswith_def leading_hashes_def)

lemma headings_loop_eq:
  "headings_loop ls acc = acc @ map heading_of (filter is_heading_line ls)"
proof (induction ls arbitrary: acc)
  case Nil
  show ?case by simp
next
  case (Cons l ls)
  show ?case
    using leading_hashes_le [of "strip l"]
    by (simp add: Cons.IH Let_def startswith_hash_iff lstrip_hash_drop
        is_heading_line_def heading_of_def)
qed

text \<open>
  Claim C7.  For every markdown text, heading extraction yields exactly one heading per
  line whose trimmed content starts with one or more \<open>#\<close> followed by non-empty trimmed
  text, in document order; the level of each heading is the number of leading \<open>#\<close>
  characters of the trimmed line (hence at least 1), and the result is a function of the
  text alone, so a repeated call gives the same sequence.
\<close>

theorem extract_headings_spec:
  "extract_headings (Inr text) = map heading_of (filter is_heading_line (splitlines text))
   \<and> length (extract_headings (Inr text)) = length (filter is_heading_line (splitlines text))
   \<and> list_all (\<lambda>h. 1 \<le> level h) (extract_headings (Inr text))
   \<and> extract_headings (Inr text) = extract_headings (Inr text)"
proof -
  have eq: "extract_headings (Inr text)
            = map heading_of (filter is_heading_line (splitlines text))"
    by (simp add: extract_headings_def headings_loop_eq)
  have lv: "list_all (\<lambda>h. 1 \<le> level h)
              (map heading_of (filter is_heading_line (splitlines text)))"
    by (simp add: list_all_iff is_heading_line_def heading_of_def)
  show ?thesis
    using lv by (simp add: eq)
qed


theorem extract_headings_spec_witness:
  "extract_headings (Inr (''# A'' @ [CHR 0x0A, CHR 0x0A] @ ''  ## B c '' @ [CHR 0x0D, CHR 0x0A]
      @ ''text'' @ [CHR 0x0A] @ ''#'' @ [CHR 0x0A] @ ''#x''))
   = [\<lparr>level = 1, title = ''A''\<rparr>, \<lparr>level = 2, title = ''B c''\<rparr>, \<lparr>level = 1, title = ''x''\<rparr>]"
  using extract_headings_spec [of "''# A'' @ [CHR 0x0A, CHR 0x0A] @ ''  ## B c '' @ [CHR 0x0D, CHR 0x0A]
      @ ''text'' @ [CHR 0x0A] @ ''#'' @ [CHR 0x0A] @ ''#x''"]
  by (simp add: is_heading_line_def heading_of_def leading_hashes_def strip_def isspace_def
      is_linebreak_def)
section \<open>The matcher decides the language of a pattern\<close>


lemma nullable_iff: "nullable r \<longleftrightarrow> [] \<in> lang r"
  by (induction r) (auto intro: star.intros)

lemma star_cons_split:
  "x \<in> star A \<Longrightarrow> x = c # w \<Longrightarrow> \<exists>u v. w = u @ v \<and> c # u \<in> A \<and> v \<in> star A"
proof (induction x rule: star.induct)
  case star_nil
  then show ?case by simp
next
  case (star_app u v)
  show ?case
  proof (cases u)
    case Nil
    with star_app show ?thesis by simp
  next
    case (Cons d u')
    with star_app.hyps(1,2) star_app.prems show ?thesis by auto
  qed
qed

lemma star_cons_iff:
  "c # w \<in> star A \<longleftrightarrow> (\<exists>u v. w = u @ v \<and> c # u \<in> A \<and> v \<in> star A)"
proof
  assume "c # w \<in> star A"
  then show "\<exists>u v. w = u @ v \<and> c # u \<in> A \<and> v \<in> star A"
    by (rule star_cons_split) simp
next
  assume "\<exists>u v. w = u @ v \<and> c # u \<in> A \<and> v \<in> star A"
  then obtain u v where "w = u @ v" "c # u \<in> A" "v \<in> star A" by blast
  then show "c # w \<in> star A"
    using star_app [of "c # u" A v] by simp
qed

lemma lang_deriv: "w \<in> lang (deriv c r) \<longleftrightarrow> c # w \<in> lang r"
proof (induction r arbitrary: w)
  case (Seq r s)
  show ?case
    by (auto simp: Seq nullable_iff Cons_eq_append_conv)
next
  case (Star r)
  show ?case
    by (auto simp: Star star_cons_iff)
qed auto


lemma dead_lang: "dead r \<Longrightarrow> lang r = {}"
  by (induction r) auto

lemma re_match_lang: "re_match r s \<longleftrightarrow> (\<exists>u v. s = u @ v \<and> u \<in> lang r)"
proof (induction s arbitrary: r)
  case Nil
  show ?case by (simp add: nullable_iff)
next
  case (Cons c cs)
  have "re_match r (c # cs) \<longleftrightarrow> nullable r \<or> re_match (deriv c r) cs"
    using dead_lang [of "deriv c r"] by (auto simp: Cons)
  then show ?case
    by (auto simp: Cons nullable_iff lang_deriv Cons_eq_append_conv)
qed



























section \<open>The result code of the main routine\<close>

lemma counted_print: "\<not> is_warn l \<Longrightarrow> counted st \<Longrightarrow> counted (print l st)"
  by (simp add: counted_def print_def)

lemma counted_warn_print: "is_warn l \<Longrightarrow> counted st \<Longrightarrow> counted (warn (print l st))"
  by (simp add: counted_def print_def warn_def)

lemma counted_check_count: "counted st \<Longrightarrow> counted (check_count category code spec st)"
  by (simp add: check_count_def counted_print counted_warn_print)

lemma counted_report_not_listed: "counted st \<Longrightarrow> counted (report_not_listed path names st)"
  by (induction names arbitrary: st) (simp_all add: counted_warn_print)

lemma counted_coverage_check: "counted st \<Longrightarrow> counted (coverage_check ml mm st)"
  by (simp add: coverage_check_def counted_report_not_listed counted_print)

lemma counted_freshness_check:
  "counted st \<Longrightarrow> counted (freshness_check today threshold name lv st)"
  by (simp add: freshness_check_def counted_warn_print split: option.splits)

lemma counted_freshness_loop:
  "counted st \<Longrightarrow> counted (fst (freshness_loop e today threshold docs st))"
  by (induction docs arbitrary: st) (simp_all add: counted_freshness_check split: sum.splits)

lemma counted_count_checks: "counted st \<Longrightarrow> counted (count_checks ot tt ld lm dt ar st)"
  by (simp add: count_checks_def Let_def counted_check_count)

lemma counted_start: "counted (print Banner \<lparr>out = [], warnings = 0\<rparr>)"
  by (simp add: counted_def print_def)

lemma summary_code:
  assumes "counted st" and "summary st = (printed, Returned code)"
  shows "code = (if 0 < length (filter is_warn printed) then 1 else 0)"
  using assms by (auto simp: summary_def Let_def counted_def print_def split: if_splits)

lemma main_returned:
  assumes "main e = (printed, Returned code)"
  shows "\<exists>st. counted st \<and> summary st = (printed, Returned code)"
proof -
  from assms obtain ot tt ld dt ar st6 where
    loop: "freshness_loop e (now e) (timedelta_days 30) [OVERVIEW, BUSINESS, TECHNICAL]
             (coverage_check (find_missing_in_spec ld [tt, ot])
                (find_missing_in_spec (count_layer_modules e) [tt, ot])
                (count_checks ot tt ld (count_layer_modules e) dt ar
                   (print Banner \<lparr>out = [], warnings = 0\<rparr>))) = (st6, None)"
    and fin: "summary st6 = (printed, Returned code)"
    by (auto simp: main_def Let_def simp del: freshness_loop.simps
        split: sum.splits prod.splits option.splits)
  have "counted (fst (freshness_loop e (now e) (timedelta_days 30)
             [OVERVIEW, BUSINESS, TECHNICAL]
             (coverage_check (find_missing_in_spec ld [tt, ot])
                (find_missing_in_spec (count_layer_modules e) [tt, ot])
                (count_checks ot tt ld (count_layer_modules e) dt ar
                   (print Banner \<lparr>out = [], warnings = 0\<rparr>)))))"
    by (intro counted_freshness_loop counted_coverage_check counted_count_checks counted_start)
  then have "counted st6" by (simp only: loop fst_conv)
  with fin show ?thesis by blast
qed

text \<open>
  Claim C1.  Whenever the main routine returns, its result code is non-zero if and only
  if at least one warning line (a count mismatch, a name not listed, a date not set or
  stale) was printed during the run: with no warning the code is 0, with one or more it
  is 1.
\<close>

theorem main_result_code:
  assumes "main e = (printed, Returned code)"
  shows "(code \<noteq> 0 \<longleftrightarrow> 0 < length (filter is_warn printed))
     \<and> (length (filter is_warn printed) = 0 \<longrightarrow> code = 0)
     \<and> (0 < length (filter is_warn printed) \<longrightarrow> code = 1)"
proof -
  from main_returned [OF assms] obtain st
    where "counted st" "summary st = (printed, Returned code)"
    by blast
  then have "code = (if 0 < length (filter is_warn printed) then 1 else 0)"
    by (rule summary_code)
  then show ?thesis by simp
qed

theorem main_result_code_witness:
  "main example_env =
     ([Banner, CountOK ''Lambda functions'' 1 1, CountOK ''Shared modules'' 1 1,
       CountOK ''DynamoDB tables'' 1 1, CountOK ''API routes'' 1 1, Blank, ResultAllOK],
      Returned 0)
   \<and> main (empty_project [OVERVIEW \<mapsto> ''Last verified: 2026-11-01'',
                           BUSINESS \<mapsto> ''no date'',
                           TECHNICAL \<mapsto> ''Last verified: 2026-09-01'']
             (noon 2026 11 4)) =
     ([Banner, CountOK ''Lambda functions'' 0 0, CountOK ''Shared modules'' 0 0,
       CountOK ''DynamoDB tables'' 0 0, CountOK ''API routes'' 0 0,
       DateNotSet ''02_business_spec.md'',
       DateStale ''03_technical_spec.md'' (midnight 2026 9 1), Blank, ResultWarnings 2],
      Returned 1)"
proof -
  have a: "main example_env =
     ([Banner, CountOK ''Lambda functions'' 1 1, CountOK ''Shared modules'' 1 1,
       CountOK ''DynamoDB tables'' 1 1, CountOK ''API routes'' 1 1, Blank, ResultAllOK],
      Returned 0)"
    by code_simp
  have b: "main (empty_project [OVERVIEW \<mapsto> ''Last verified: 2026-11-01'',
                           BUSINESS \<mapsto> ''no date'',
                           TECHNICAL \<mapsto> ''Last verified: 2026-09-01'']
             (noon 2026 11 4)) =
     ([Banner, CountOK ''Lambda functions'' 0 0, CountOK ''Shared modules'' 0 0,
       CountOK ''DynamoDB tables'' 0 0, CountOK ''API routes'' 0 0,
       DateNotSet ''02_business_spec.md'',
       DateStale ''03_technical_spec.md'' (midnight 2026 9 1), Blank, ResultWarnings 2],
      Returned 1)"
    by code_simp
  from main_result_code [OF a] main_result_code [OF b] a b show ?thesis by simp
qed

section \<open>Parsing the verification date\<close>















section \<open>Freshness and name coverage\<close>


lemma freshness_check_absent:
  "freshness_check today threshold name None st = warn (print (DateNotSet name) st)"
  by (simp add: freshness_check_def)

lemma datetime_sub_midnight:
  "datetime_sub today (midnight y m d) =
     (toordinal today - toordinal (midnight y m d)) * 86400000000
     + ((second today + minute today * 60 + hour today * 3600) * 1000000 + microsecond today)"
  by (simp add: datetime_sub_def midnight_def Let_def algebra_simps)

lemma time_of_day_range:
  assumes "valid_time today"
  shows "0 \<le> (second today + minute today * 60 + hour today * 3600) * 1000000 + microsecond today"
    and "(second today + minute today * 60 + hour today * 3600) * 1000000 + microsecond today
         < 86400000000"
    and "(second today + minute today * 60 + hour today * 3600) * 1000000 + microsecond today = 0
         \<longleftrightarrow> is_midnight today"
proof -
  define secs where "secs = second today + minute today * 60 + hour today * 3600"
  from assms have r: "0 \<le> hour today" "hour today \<le> 23" "0 \<le> minute today"
    "minute today \<le> 59" "0 \<le> second today" "second today \<le> 59"
    and us: "0 \<le> microsecond today" "microsecond today \<le> 999999"
    by (simp_all add: valid_time_def)
  from r have secs: "0 \<le> secs" "secs \<le> 86399"
    unfolding secs_def by linarith+
  from r have zero: "secs = 0 \<longleftrightarrow> hour today = 0 \<and> minute today = 0 \<and> second today = 0"
    unfolding secs_def by linarith
  from secs us show "0 \<le> secs * 1000000 + microsecond today"
    by linarith
  from secs us show "secs * 1000000 + microsecond today < 86400000000"
    by linarith
  from secs us have "secs * 1000000 + microsecond today = 0
                     \<longleftrightarrow> secs = 0 \<and> microsecond today = 0"
    by linarith
  with zero show "secs * 1000000 + microsecond today = 0 \<longleftrightarrow> is_midnight today"
    by (simp add: is_midnight_def)
qed


lemma freshness_check_by_days:
  assumes "valid_time today"
  shows "31 \<le> toordinal today - toordinal (midnight y m d) \<Longrightarrow>
           freshness_check today (timedelta_days 30) name (Some (midnight y m d)) st
             = warn (print (DateStale name (midnight y m d)) st)"
    and "toordinal today - toordinal (midnight y m d) \<le> 29 \<Longrightarrow>
           freshness_check today (timedelta_days 30) name (Some (midnight y m d)) st = st"
    and "toordinal today - toordinal (midnight y m d) = 30 \<Longrightarrow>
           freshness_check today (timedelta_days 30) name (Some (midnight y m d)) st
             = (if is_midnight today then st
                else warn (print (DateStale name (midnight y m d)) st))"
proof -
  define days where "days = toordinal today - toordinal (midnight y m d)"
  define tod where
    "tod = (second today + minute today * 60 + hour today * 3600) * 1000000 + microsecond today"
  have sub: "datetime_sub today (midnight y m d) = days * 86400000000 + tod"
    unfolding days_def tod_def by (rule datetime_sub_midnight)
  from time_of_day_range [OF assms]
  have tod: "0 \<le> tod" "tod < 86400000000" "tod = 0 \<longleftrightarrow> is_midnight today"
    unfolding tod_def by simp_all
  have stale: "freshness_check today (timedelta_days 30) name (Some (midnight y m d)) st
      = (if 2592000000000 < days * 86400000000 + tod
         then warn (print (DateStale name (midnight y m d)) st) else st)"
    by (simp add: freshness_check_def timedelta_days_def sub)
  show "31 \<le> days \<Longrightarrow>
           freshness_check today (timedelta_days 30) name (Some (midnight y m d)) st
             = warn (print (DateStale name (midnight y m d)) st)"
  proof -
    assume "31 \<le> days"
    with tod(1) have "2592000000000 < days * 86400000000 + tod" by linarith
    then show ?thesis by (simp add: stale)
  qed
  show "days \<le> 29 \<Longrightarrow>
           freshness_check today (timedelta_days 30) name (Some (midnight y m d)) st = st"
  proof -
    assume "days \<le> 29"
    with tod(2) have "\<not> 2592000000000 < days * 86400000000 + tod" by linarith
    then show ?thesis by (simp add: stale)
  qed
  show "days = 30 \<Longrightarrow>
           freshness_check today (timedelta_days 30) name (Some (midnight y m d)) st
             = (if is_midnight today then st
                else warn (print (DateStale name (midnight y m d)) st))"
  proof -
    assume "days = 30"
    with tod(1) have "2592000000000 < days * 86400000000 + tod \<longleftrightarrow> tod \<noteq> 0" by linarith
    with tod(3) show ?thesis by (simp add: stale)
  qed
qed


text \<open>
  Claim C3 (a date exactly 30 days before the moment of the check is reported OK, a
  date 31 days before is a warning, absent metadata is a warning).  The last two parts
  hold, see \<open>freshness_check_by_days\<close> and \<open>freshness_check_absent\<close>.  The first
  part fails on the code at any moment other than midnight, because the parsed date
  stands for midnight and \<open>datetime.now()\<close> carries the time of day: at noon of
  2026-11-04, three documents verified on 2026-10-05, exactly 30 days before, are all
  reported as over 30 days old, and the run returns 1.
\<close>

theorem freshness_thirty_days_at_noon:
  "toordinal (noon 2026 11 4) - toordinal (midnight 2026 10 5) = 30
   \<and> main (empty_project [OVERVIEW \<mapsto> ''Last verified: 2026-10-05'',
                           BUSINESS \<mapsto> ''Last verified: 2026-10-05'',
                           TECHNICAL \<mapsto> ''Last verified: 2026-10-05'']
             (noon 2026 11 4)) =
     ([Banner, CountOK ''Lambda functions'' 0 0, CountOK ''Shared modules'' 0 0,
       CountOK ''DynamoDB tables'' 0 0, CountOK ''API routes'' 0 0,
       DateStale ''01_overview.md'' (midnight 2026 10 5),
       DateStale ''02_business_spec.md'' (midnight 2026 10 5),
       DateStale ''03_technical_spec.md'' (midnight 2026 10 5), Blank, ResultWarnings 3],
      Returned 1)"
  by code_simp

text \<open>
  Claim C4 (the verification date is taken from the trailing \<open>Last verified\<close> line at
  the end of the document).  The code searches the whole text and takes the first match:
  of two such lines, the date of the first one is returned, not the trailing one.
\<close>

theorem parse_last_verified_date_takes_first:
  "parse_last_verified_date
     (''Last verified: 2020-01-01'' @ [CHR 0x0A] @ ''# Overview'' @ [CHR 0x0A]
      @ ''Last verified: 2026-11-01'' @ [CHR 0x0A])
   = Inr (Some (midnight 2020 1 1))"
  by code_simp


lemma find_missing_loop_filter:
  "find_missing_loop names combined missing
     = missing @ filter (\<lambda>name. \<not> contains combined (replace_dot_py name)) names"
  by (induction names arbitrary: missing) (simp_all add: Let_def)

lemma find_missing_in_spec_filter:
  "find_missing_in_spec names spec_texts
     = filter (\<lambda>name. \<not> contains (join_newline spec_texts) (replace_dot_py name)) names"
  by (simp add: find_missing_in_spec_def find_missing_loop_filter)

text \<open>
  Claim C5 (a name whose extension-stripped form occurs in the joined specification
  texts is never reported missing).  The code removes every occurrence of \<open>.py\<close> from
  the name, not only the extension: the module file \<open>cache.pyredis.py\<close> is searched as
  \<open>cacheredis\<close> and reported missing although \<open>cache.pyredis\<close> occurs in the text.
\<close>

theorem find_missing_inner_dot_py:
  "strip_extension ''cache.pyredis.py'' = ''cache.pyredis''
   \<and> contains (join_newline [''uses cache.pyredis for rank lookups'', ''overview''])
        (strip_extension ''cache.pyredis.py'')
   \<and> find_missing_in_spec [''cache.pyredis.py'']
        [''uses cache.pyredis for rank lookups'', ''overview''] = [''cache.pyredis.py'']"
  by code_simp



lemma startswith_dot_py:
  "startswith (a # b # c # rest) ''.py'' \<longleftrightarrow> a = CHR ''.'' \<and> b = CHR ''p'' \<and> c = CHR ''y''"
  by (simp add: startswith_def)

lemma replace_dot_py_absent: "\<not> contains name ''.py'' \<Longrightarrow> replace_dot_py name = name"
proof (induction name rule: replace_dot_py.induct)
  case (1 a b c rest)
  from "1.prems" have no: "\<not> (a = CHR ''.'' \<and> b = CHR ''p'' \<and> c = CHR ''y'')"
    and tl: "\<not> contains (b # c # rest) ''.py''"
    using startswith_dot_py [of a b c rest] by simp_all
  have "replace_dot_py (a # b # c # rest) = a # replace_dot_py (b # c # rest)"
    by (subst replace_dot_py.simps) (rule if_not_P [OF no])
  with "1.IH"(2) [OF no tl] show ?case by simp
qed simp_all

lemma startswith_append: "startswith xs p \<Longrightarrow> startswith (xs @ ys) p"
proof -
  assume a: "startswith xs p"
  then have "length (take (length p) xs) = length p" by (simp add: startswith_def)
  then have "length p \<le> length xs" by simp
  with a show ?thesis by (simp add: startswith_def)
qed

lemma contains_empty: "contains xs []"
  by (cases xs) (simp_all add: startswith_def)

lemma contains_append: "contains xs sub \<Longrightarrow> contains (xs @ ys) sub"
proof (induction xs)
  case Nil
  then show ?case by (simp add: contains_empty)
next
  case (Cons x xs)
  then show ?case
    using startswith_append [of "x # xs" sub ys] by auto
qed

lemma replace_dot_py_extension:
  "endswith name ''.py'' \<Longrightarrow> \<not> contains (butlast name) ''.py''
   \<Longrightarrow> replace_dot_py name = strip_extension name"
proof (induction name rule: replace_dot_py.induct)
  case (1 a b c rest)
  show ?case
  proof (cases "a = CHR ''.'' \<and> b = CHR ''p'' \<and> c = CHR ''y''")
    case True
    have "rest = []"
    proof (rule ccontr)
      assume "rest \<noteq> []"
      then have "butlast (a # b # c # rest) = a # b # c # butlast rest" by simp
      with True "1.prems"(2) show False by (simp add: startswith_def)
    qed
    with True show ?thesis by (simp add: strip_extension_def endswith_def)
  next
    case False
    have rest: "rest \<noteq> []"
    proof
      assume "rest = []"
      with "1.prems"(1) False show False by (simp add: endswith_def)
    qed
    then obtain k where k: "length rest = Suc k" by (cases rest) auto
    have e: "endswith (b # c # rest) ''.py''"
      using "1.prems"(1) by (simp add: endswith_def k)
    from rest "1.prems"(2) have n: "\<not> contains (butlast (b # c # rest)) ''.py''"
      by simp
    have "replace_dot_py (a # b # c # rest) = a # replace_dot_py (b # c # rest)"
      by (subst replace_dot_py.simps) (rule if_not_P [OF False])
    with "1.IH"(2) [OF False e n]
    have "replace_dot_py (a # b # c # rest) = a # strip_extension (b # c # rest)" by simp
    also have "\<dots> = strip_extension (a # b # c # rest)"
      using e "1.prems"(1) by (simp add: strip_extension_def k)
    finally show ?thesis .
  qed
qed (simp_all add: endswith_def)

lemma find_missing_in_spec_plain_names:
  assumes "\<forall>name\<in>set names. (endswith name ''.py'' \<and> \<not> contains (butlast name) ''.py'')
                              \<or> \<not> contains name ''.py''"
  shows "find_missing_in_spec names spec_texts
     = filter (\<lambda>name. \<not> contains (join_newline spec_texts) (strip_extension name)) names"
proof -
  have "replace_dot_py name = strip_extension name" if "name \<in> set names" for name
  proof -
    show ?thesis
    proof (cases "endswith name ''.py''")
      case True
      have "\<not> contains (butlast name) ''.py''"
      proof
        assume c: "contains (butlast name) ''.py''"
        from contains_append [OF c, of "[last name]"] True have "contains name ''.py''"
          by (cases "name = []") (simp_all add: endswith_def)
        with assms that c show False by blast
      qed
      with True show ?thesis by (rule replace_dot_py_extension)
    next
      case False
      with assms that have "\<not> contains name ''.py''" by blast
      with False show ?thesis by (simp add: replace_dot_py_absent strip_extension_def)
    qed
  qed
  then show ?thesis
    unfolding find_missing_in_spec_filter by (intro filter_cong) simp_all
qed


section \<open>A missing specification document\<close>

























section \<open>The source scan: what the three sorted fields hold\<close>


lemma paths_of_nonempty: "(p, f) \<in> paths_of t \<Longrightarrow> p \<noteq> []"
  by (induction t arbitrary: p f) auto

lemma rglob_set: "set (rglob m t) = {(p, f). (p, f) \<in> paths_of t \<and> m (last p)}"
proof (induction m t rule: rglob.induct)
  case (1 m n)
  show ?case by simp
next
  case (2 m n cs)
  have sub: "set (map (\<lambda>(p, f). (node_name c # p, f)) (rglob m c))
             = {(node_name c # p, f) |p f. (p, f) \<in> paths_of c \<and> m (last p)}"
    if "c \<in> set cs" for c
    using 2 [OF that] by (auto simp: image_iff)
  have last_cons: "last (x # p) = last p" if "(p, f) \<in> paths_of c" for x p f c
    using paths_of_nonempty [OF that] by simp
  show ?case
  proof (rule set_eqI)
    fix x :: "string list \<times> bool"
    obtain p f where x: "x = (p, f)" by (cases x)
    have "x \<in> set (rglob m (Dir n cs)) \<longleftrightarrow>
            (\<exists>c\<in>set cs. (m (node_name c) \<and> p = [node_name c] \<and> f = is_file c)
                \<or> (\<exists>q. p = node_name c # q \<and> (q, f) \<in> paths_of c \<and> m (last q)))"
      using sub by (auto simp: x)
    also have "\<dots> \<longleftrightarrow> (p, f) \<in> paths_of (Dir n cs) \<and> m (last p)"
      using last_cons by (auto 0 3)
    finally show "x \<in> set (rglob m (Dir n cs))
                  \<longleftrightarrow> x \<in> {(p, f). (p, f) \<in> paths_of (Dir n cs) \<and> m (last p)}"
      by (simp add: x)
  qed
qed



lemma slash_split:
  assumes "CHR ''/'' \<notin> set a" "CHR ''/'' \<notin> set b" "a @ CHR ''/'' # r = b @ CHR ''/'' # s"
  shows "a = b \<and> r = s"
  using assms
proof (induction a arbitrary: b)
  case Nil
  then show ?case by (cases b) auto
next
  case (Cons x a)
  then show ?case by (cases b) auto
qed

lemma slash_absent:
  assumes "CHR ''/'' \<notin> set a"
  shows "a \<noteq> b @ CHR ''/'' # s"
  using assms by auto

lemma join_path_Cons:
  "ps \<noteq> [] \<Longrightarrow> join_path (p # ps) = p @ CHR ''/'' # join_path ps"
  by (cases ps) simp_all

lemma join_path_inj:
  "good_path p \<Longrightarrow> good_path q \<Longrightarrow> join_path p = join_path q \<Longrightarrow> p = q"
proof (induction p arbitrary: q)
  case Nil
  then show ?case by (simp add: good_path_def)
next
  case (Cons x p)
  from Cons.prems obtain y q' where q: "q = y # q'" by (cases q) (auto simp: good_path_def)
  from Cons.prems have x: "CHR ''/'' \<notin> set x" and y: "CHR ''/'' \<notin> set y"
    by (simp_all add: good_path_def q)
  show ?case
  proof (cases "p = []")
    case True
    show ?thesis
    proof (cases "q' = []")
      case True
      with \<open>p = []\<close> Cons.prems show ?thesis by (simp add: q)
    next
      case False
      with \<open>p = []\<close> Cons.prems have "x = y @ CHR ''/'' # join_path q'"
        by (simp add: q join_path_Cons)
      with slash_absent [OF x] show ?thesis by blast
    qed
  next
    case False
    show ?thesis
    proof (cases "q' = []")
      case True
      with False Cons.prems have "y = x @ CHR ''/'' # join_path p"
        by (simp add: q join_path_Cons)
      with slash_absent [OF y] show ?thesis by blast
    next
      case q': False
      from False q' Cons.prems
      have "x @ CHR ''/'' # join_path p = y @ CHR ''/'' # join_path q'"
        by (simp add: q join_path_Cons)
      from slash_split [OF x y this] have xy: "x = y" and j: "join_path p = join_path q'"
        by simp_all
      from Cons.prems False q' have "good_path p" "good_path q'"
        by (simp_all add: good_path_def q)
      from Cons.IH [OF this j] xy show ?thesis by (simp add: q)
    qed
  qed
qed

lemma paths_of_good: "wf_node t \<Longrightarrow> (p, f) \<in> paths_of t \<Longrightarrow> good_path p"
proof (induction t arbitrary: p f)
  case (File n)
  then show ?case by simp
next
  case (Dir n cs)
  from Dir.prems(2) obtain c where c: "c \<in> set cs"
    and p: "(p = [node_name c] \<and> f = is_file c)
            \<or> (\<exists>q. p = node_name c # q \<and> (q, f) \<in> paths_of c)"
    by auto
  from Dir.prems(1) c have nm: "CHR ''/'' \<notin> set (node_name c)" and wf: "wf_node c"
    by auto
  from p show ?case
  proof
    assume "p = [node_name c] \<and> f = is_file c"
    with nm show ?thesis by (simp add: good_path_def)
  next
    assume "\<exists>q. p = node_name c # q \<and> (q, f) \<in> paths_of c"
    then obtain q where q: "p = node_name c # q" "(q, f) \<in> paths_of c" by blast
    from Dir.IH [OF c wf q(2)] nm q(1) show ?thesis by (simp add: good_path_def)
  qed
qed

lemma distinct_concat_map:
  assumes "distinct xs" and "\<And>x. x \<in> set xs \<Longrightarrow> distinct (g x)"
    and "\<And>x y. x \<in> set xs \<Longrightarrow> y \<in> set xs \<Longrightarrow> x \<noteq> y \<Longrightarrow> set (g x) \<inter> set (g y) = {}"
  shows "distinct (concat (map g xs))"
  using assms
proof (induction xs)
  case Nil
  show ?case by simp
next
  case (Cons x xs)
  have "distinct (concat (map g xs))"
    by (rule Cons.IH) (use Cons.prems in auto)
  moreover have "distinct (g x)" using Cons.prems(2) by simp
  moreover have "set (g x) \<inter> set (g y) = {}" if "y \<in> set xs" for y
    using Cons.prems(1) Cons.prems(3) [of x y] that by auto
  ultimately show ?case by auto
qed

lemma rglob_distinct: "wf_node t \<Longrightarrow> distinct (map fst (rglob m t))"
proof (induction m t rule: rglob.induct)
  case (1 m n)
  show ?case by simp
next
  case (2 m n cs)
  from "2.prems" have names: "distinct (map node_name cs)"
    and wf: "\<And>c. c \<in> set cs \<Longrightarrow> wf_node c"
    by auto
  let ?top = "map (\<lambda>c. [node_name c]) (filter (\<lambda>c. m (node_name c)) cs)"
  let ?sub = "\<lambda>c. map (\<lambda>p. node_name c # p) (map fst (rglob m c))"
  have eq: "map fst (rglob m (Dir n cs)) = ?top @ concat (map ?sub cs)"
    by (simp add: map_concat comp_def case_prod_unfold)
  have cs: "distinct cs" using names by (simp add: distinct_map)
  have top: "distinct ?top"
  proof -
    have "distinct (map node_name (filter (\<lambda>c. m (node_name c)) cs))"
      using names by (rule distinct_map_filter)
    then have "distinct (map (\<lambda>n. [n]) (map node_name (filter (\<lambda>c. m (node_name c)) cs)))"
      by (simp add: distinct_map inj_on_def)
    then show ?thesis by (simp add: comp_def)
  qed
  have sub: "distinct (concat (map ?sub cs))"
  proof (rule distinct_concat_map [OF cs])
    fix c assume "c \<in> set cs"
    from "2.IH" [OF this wf [OF this]] show "distinct (?sub c)"
      by (simp add: distinct_map inj_on_def)
  next
    fix c d assume "c \<in> set cs" "d \<in> set cs" "c \<noteq> d"
    with names have "node_name c \<noteq> node_name d"
      by (auto simp: distinct_map inj_on_def)
    then show "set (?sub c) \<inter> set (?sub d) = {}" by auto
  qed
  have disj: "set ?top \<inter> set (concat (map ?sub cs)) = {}"
  proof -
    have "p \<noteq> []" if "p \<in> set (map fst (rglob m c))" for p c
    proof -
      from that obtain f where "(p, f) \<in> set (rglob m c)" by auto
      then have "(p, f) \<in> paths_of c" by (simp add: rglob_set)
      then show ?thesis by (rule paths_of_nonempty)
    qed
    then show ?thesis by auto
  qed
  show ?case
    unfolding eq using top sub disj by simp
qed



lemma discover_fields:
  "source_directories (discover_source_code rp root)
     = sort (source_dirs_loop (sort_key node_name (dir_entries root)) [])"
  "entry_points (discover_source_code rp root)
     = sort (concat (map (entry_points_of rp root) entry_point_patterns))"
  "shared_modules (discover_source_code rp root)
     = sort (concat (map (shared_modules_of rp root) shared_patterns))"
  by (simp_all add: discover_source_code_def Let_def)

lemma source_dirs_loop_filter:
  "source_dirs_loop ds acc = acc @ map node_name (filter source_dir ds)"
  by (induction ds arbitrary: acc) (auto simp: source_dir_def)

lemma wf_entries_distinct: "wf_node root \<Longrightarrow> distinct (map node_name (dir_entries root))"
  by (cases root) simp_all

lemma source_dirs_distinct:
  assumes "wf_node root"
  shows "distinct (source_dirs_loop (sort_key node_name (dir_entries root)) [])"
proof -
  have "distinct (map node_name (sort_key node_name (dir_entries root)))"
    using wf_entries_distinct [OF assms] by (simp add: distinct_map)
  then show ?thesis
    unfolding source_dirs_loop_filter by (simp add: distinct_map_filter)
qed

lemma paths_of_Cons:
  "(n # p, f) \<in> paths_of root \<longleftrightarrow>
     (\<exists>c\<in>set (dir_entries root). node_name c = n
        \<and> ((p = [] \<and> f = is_file c) \<or> (p \<noteq> [] \<and> (p, f) \<in> paths_of c)))"
proof (cases root)
  case (File m)
  then show ?thesis by simp
next
  case (Dir m cs)
  show ?thesis
    using paths_of_nonempty by (auto simp: Dir)
qed

lemma paths_of_dir: "(p, f) \<in> paths_of c \<Longrightarrow> is_dir c"
  by (cases c) simp_all

lemma has_source_iff:
  "has_source d \<longleftrightarrow>
     (\<exists>ext\<in>set (map fst language_extensions). \<exists>p f. (p, f) \<in> paths_of d \<and> endswith (last p) ext)"
proof -
  have "rglob m d \<noteq> [] \<longleftrightarrow> (\<exists>p f. (p, f) \<in> paths_of d \<and> m (last p))" for m
  proof -
    have "rglob m d \<noteq> [] \<longleftrightarrow> set (rglob m d) \<noteq> {}" by simp
    also have "\<dots> \<longleftrightarrow> (\<exists>p f. (p, f) \<in> paths_of d \<and> m (last p))"
      unfolding rglob_set by auto
    finally show ?thesis .
  qed
  then show ?thesis by (simp add: has_source_def)
qed

lemma source_dirs_set:
  "set (source_dirs_loop (sort_key node_name (dir_entries root)) [])
     = {n. \<not> startswith n ''.'' \<and> n \<notin> set ignore_dirs
           \<and> (\<exists>ext\<in>set (map fst language_extensions).
                 \<exists>p f. (n # p, f) \<in> paths_of root \<and> p \<noteq> [] \<and> endswith (last p) ext)}"
  (is "?L = ?R")
proof (rule set_eqI)
  fix n
  have "n \<in> ?L \<longleftrightarrow> (\<exists>d\<in>set (dir_entries root). node_name d = n \<and> source_dir d)"
    by (auto simp: source_dirs_loop_filter)
  also have "\<dots> \<longleftrightarrow> n \<in> ?R"
  proof
    assume "\<exists>d\<in>set (dir_entries root). node_name d = n \<and> source_dir d"
    then obtain d where d: "d \<in> set (dir_entries root)" "node_name d = n" "source_dir d"
      by blast
    from d(3) obtain ext p f where e: "ext \<in> set (map fst language_extensions)"
        "(p, f) \<in> paths_of d" "endswith (last p) ext"
      unfolding source_dir_def has_source_iff by blast
    from e(2) have "p \<noteq> []" by (rule paths_of_nonempty)
    with d(1,2) e(2) have "(n # p, f) \<in> paths_of root"
      unfolding paths_of_Cons by blast
    with d(2,3) e(1,3) \<open>p \<noteq> []\<close> show "n \<in> ?R"
      unfolding source_dir_def by blast
  next
    assume "n \<in> ?R"
    then obtain ext p f where r: "\<not> startswith n ''.''" "n \<notin> set ignore_dirs"
        "ext \<in> set (map fst language_extensions)"
        "(n # p, f) \<in> paths_of root" "p \<noteq> []" "endswith (last p) ext"
      by blast
    from r(4,5) obtain c where c: "c \<in> set (dir_entries root)" "node_name c = n"
        "(p, f) \<in> paths_of c"
      unfolding paths_of_Cons by blast
    from c(3) have "is_dir c" by (rule paths_of_dir)
    moreover from c(3) r(3,6) have "has_source c"
      unfolding has_source_iff by blast
    ultimately have "source_dir c"
      using r(1,2) c(2) by (simp add: source_dir_def)
    with c(1,2) show "\<exists>d\<in>set (dir_entries root). node_name d = n \<and> source_dir d"
      by blast
  qed
  finally show "n \<in> ?L \<longleftrightarrow> n \<in> ?R" .
qed



lemma rglob_good: "wf_node t \<Longrightarrow> (p, f) \<in> set (rglob m t) \<Longrightarrow> good_path p"
  using paths_of_good [of t p f] by (simp add: rglob_set)

lemma entry_points_of_distinct:
  assumes "wf_node root"
  shows "distinct (entry_points_of rp root pattern)"
proof -
  let ?xs = "filter (\<lambda>(rel, file). \<not> ignored rp rel) (rglob (\<lambda>name. name = pattern) root)"
  have d: "distinct (map fst ?xs)"
    using rglob_distinct [OF assms] by (rule distinct_map_filter)
  have inj: "inj_on join_path (set (map fst ?xs))"
  proof (rule inj_onI)
    fix p q assume "p \<in> set (map fst ?xs)" "q \<in> set (map fst ?xs)" "join_path p = join_path q"
    then show "p = q"
      using rglob_good [OF assms] by (auto intro!: join_path_inj)
  qed
  have eq: "entry_points_of rp root pattern = map join_path (map fst ?xs)"
    by (simp add: entry_points_of_def case_prod_unfold comp_def)
  have "distinct (map join_path (map fst ?xs))"
    by (subst distinct_map) (rule conjI [OF d inj])
  then show ?thesis by (simp only: eq)
qed

lemma entry_points_of_set:
  "set (entry_points_of rp root pattern)
     = {join_path p |p f. (p, f) \<in> paths_of root \<and> last p = pattern \<and> \<not> ignored rp p}"
  by (auto simp: entry_points_of_def rglob_set image_iff)

lemma entry_points_disjoint:
  assumes "wf_node root" "pattern \<noteq> pattern'"
  shows "set (entry_points_of rp root pattern) \<inter> set (entry_points_of rp root pattern') = {}"
proof -
  have False if "x \<in> set (entry_points_of rp root pattern)"
      "x \<in> set (entry_points_of rp root pattern')" for x
  proof -
    from that obtain p f q g where
      p: "x = join_path p" "(p, f) \<in> paths_of root" "last p = pattern"
      and q: "x = join_path q" "(q, g) \<in> paths_of root" "last q = pattern'"
      unfolding entry_points_of_set by blast
    from paths_of_good [OF assms(1) p(2)] paths_of_good [OF assms(1) q(2)] p(1) q(1)
    have "p = q" by (auto intro: join_path_inj)
    with p(3) q(3) assms(2) show False by simp
  qed
  then show ?thesis by blast
qed

lemma entry_points_distinct:
  assumes "wf_node root"
  shows "distinct (concat (map (entry_points_of rp root) entry_point_patterns))"
proof (rule distinct_concat_map)
  show "distinct entry_point_patterns"
    by (simp add: entry_point_patterns_def)
next
  fix pattern
  show "distinct (entry_points_of rp root pattern)"
    using assms by (rule entry_points_of_distinct)
next
  fix pattern pattern' :: string
  assume "pattern \<noteq> pattern'"
  with assms show "set (entry_points_of rp root pattern)
                     \<inter> set (entry_points_of rp root pattern') = {}"
    by (rule entry_points_disjoint)
qed

lemma entry_points_set:
  "set (concat (map (entry_points_of rp root) entry_point_patterns))
     = {join_path p |p f. (p, f) \<in> paths_of root \<and> last p \<in> set entry_point_patterns
                          \<and> \<not> ignored rp p}"
  by (auto simp: entry_points_of_set)



lemma find_SomeD: "find P xs = Some x \<Longrightarrow> x \<in> set xs \<and> P x"
  by (induction xs) (auto split: if_splits)

lemma find_NoneD: "find P xs = None \<Longrightarrow> x \<in> set xs \<Longrightarrow> \<not> P x"
  by (induction xs) (auto split: if_splits)

lemma wf_entry:
  "wf_node root \<Longrightarrow> c \<in> set (dir_entries root)
   \<Longrightarrow> wf_node c \<and> CHR ''/'' \<notin> set (node_name c)"
  by (cases root) auto

lemma wf_entry_unique:
  assumes "wf_node root" "c \<in> set (dir_entries root)" "d \<in> set (dir_entries root)"
    "node_name c = node_name d"
  shows "c = d"
  using wf_entries_distinct [OF assms(1)] assms(2-4)
  by (auto simp: distinct_map inj_on_def)

lemma shared_modules_of_Some:
  assumes "find (\<lambda>c. node_name c = name) (dir_entries root) = Some d" "is_dir d"
  shows "shared_modules_of rp root name
         = map join_path (map (\<lambda>p. name # p)
             (map fst (filter (shared_file rp name) (rglob (\<lambda>name. True) d))))"
  using assms
  by (simp add: shared_modules_of_def shared_file_def case_prod_unfold comp_def)

lemma shared_modules_of_distinct:
  assumes "wf_node root"
  shows "distinct (shared_modules_of rp root name)"
proof (cases "find (\<lambda>c. node_name c = name) (dir_entries root)")
  case None
  then show ?thesis by (simp add: shared_modules_of_def)
next
  case (Some d)
  show ?thesis
  proof (cases "is_dir d")
    case False
    with Some show ?thesis by (simp add: shared_modules_of_def)
  next
    case True
    from find_SomeD [OF Some] have d: "d \<in> set (dir_entries root)" "node_name d = name"
      by simp_all
    from wf_entry [OF assms d(1)] d(2) have wf: "wf_node d" and nm: "CHR ''/'' \<notin> set name"
      by simp_all
    let ?xs = "map fst (filter (shared_file rp name) (rglob (\<lambda>name. True) d))"
    have dx: "distinct ?xs"
      using rglob_distinct [OF wf] by (rule distinct_map_filter)
    have good: "good_path p" if "p \<in> set ?xs" for p
      using that rglob_good [OF wf] by auto
    have d2: "distinct (map (\<lambda>p. name # p) ?xs)"
      using dx by (simp add: distinct_map inj_on_def)
    have inj: "inj_on join_path (set (map (\<lambda>p. name # p) ?xs))"
    proof (rule inj_onI)
      fix a b
      assume a: "a \<in> set (map (\<lambda>p. name # p) ?xs)" and b: "b \<in> set (map (\<lambda>p. name # p) ?xs)"
        and j: "join_path a = join_path b"
      have cons: "good_path (name # p)" if "p \<in> set ?xs" for p
        using good [OF that] nm by (simp add: good_path_def)
      from a obtain p where "a = name # p" "p \<in> set ?xs" by auto
      with cons have ga: "good_path a" by simp
      from b obtain q where "b = name # q" "q \<in> set ?xs" by auto
      with cons have gb: "good_path b" by simp
      from ga gb j show "a = b" by (rule join_path_inj)
    qed
    have "distinct (map join_path (map (\<lambda>p. name # p) ?xs))"
      by (subst distinct_map) (rule conjI [OF d2 inj])
    then show ?thesis
      by (simp only: shared_modules_of_Some [OF Some True])
  qed
qed

lemma shared_modules_of_set:
  assumes "wf_node root"
  shows "set (shared_modules_of rp root name)
     = {join_path (name # p) |p. p \<noteq> [] \<and> (name # p, True) \<in> paths_of root
          \<and> path_suffix (last p) \<in> set (map fst language_extensions)
          \<and> \<not> ignored rp (name # p)}"
  (is "?L = ?R")
proof (cases "find (\<lambda>c. node_name c = name) (dir_entries root)")
  case None
  have "(name # p, f) \<notin> paths_of root" for p f
    using find_NoneD [OF None] unfolding paths_of_Cons by blast
  then have "?R = {}" by blast
  with None show ?thesis by (simp add: shared_modules_of_def)
next
  case (Some d)
  from find_SomeD [OF Some] have d: "d \<in> set (dir_entries root)" "node_name d = name"
    by simp_all
  have under: "(name # p, f) \<in> paths_of root \<and> p \<noteq> [] \<longleftrightarrow> (p, f) \<in> paths_of d" for p f
  proof
    assume "(name # p, f) \<in> paths_of root \<and> p \<noteq> []"
    then obtain c where c: "c \<in> set (dir_entries root)" "node_name c = name"
        "(p, f) \<in> paths_of c"
      unfolding paths_of_Cons by blast
    from wf_entry_unique [OF assms c(1) d(1)] c(2) d(2) have "c = d" by simp
    with c(3) show "(p, f) \<in> paths_of d" by simp
  next
    assume "(p, f) \<in> paths_of d"
    with d paths_of_nonempty [OF this] show "(name # p, f) \<in> paths_of root \<and> p \<noteq> []"
      unfolding paths_of_Cons by blast
  qed
  show ?thesis
  proof (cases "is_dir d")
    case False
    then have "paths_of d = {}" by (cases d) simp_all
    with under have "?R = {}" by blast
    with Some False show ?thesis by (simp add: shared_modules_of_def)
  next
    case True
    have "?L = {join_path (name # p) |p. (p, True) \<in> paths_of d
          \<and> path_suffix (last p) \<in> set (map fst language_extensions)
          \<and> \<not> ignored rp (name # p)}"
    proof (rule set_eqI)
      fix x
      define ok where "ok = (\<lambda>p. path_suffix (last p) \<in> set (map fst language_extensions)
                                \<and> \<not> ignored rp (name # p))"
      have sf: "shared_file rp name (p, f) \<longleftrightarrow> f \<and> ok p" for p f
        by (simp add: shared_file_def ok_def)
      have "x \<in> ?L \<longleftrightarrow> (\<exists>p f. (p, f) \<in> set (rglob (\<lambda>name. True) d)
                            \<and> shared_file rp name (p, f) \<and> x = join_path (name # p))"
        unfolding shared_modules_of_Some [OF Some True] by force
      also have "\<dots> \<longleftrightarrow> (\<exists>p. (p, True) \<in> paths_of d \<and> ok p \<and> x = join_path (name # p))"
        by (auto simp: rglob_set sf)
      finally show "x \<in> ?L \<longleftrightarrow> x \<in> {join_path (name # p) |p. (p, True) \<in> paths_of d
          \<and> path_suffix (last p) \<in> set (map fst language_extensions)
          \<and> \<not> ignored rp (name # p)}"
        unfolding ok_def by blast
    qed
    also have "\<dots> = ?R"
      using under by blast
    finally show ?thesis .
  qed
qed

lemma shared_modules_disjoint:
  assumes "wf_node root" "name \<noteq> name'"
  shows "set (shared_modules_of rp root name) \<inter> set (shared_modules_of rp root name') = {}"
proof -
  have False if "x \<in> set (shared_modules_of rp root name)"
      "x \<in> set (shared_modules_of rp root name')" for x
  proof -
    from that obtain p q where
      p: "x = join_path (name # p)" "(name # p, True) \<in> paths_of root"
      and q: "x = join_path (name' # q)" "(name' # q, True) \<in> paths_of root"
      unfolding shared_modules_of_set [OF assms(1)] by blast
    have "join_path (name # p) = join_path (name' # q)"
      using p(1) q(1) by simp
    with paths_of_good [OF assms(1) p(2)] paths_of_good [OF assms(1) q(2)]
    have "name # p = name' # q" by (rule join_path_inj)
    with assms(2) show False by simp
  qed
  then show ?thesis by blast
qed

lemma shared_modules_distinct:
  assumes "wf_node root"
  shows "distinct (concat (map (shared_modules_of rp root) shared_patterns))"
proof (rule distinct_concat_map)
  show "distinct shared_patterns"
    by (simp add: shared_patterns_def)
next
  fix name
  show "distinct (shared_modules_of rp root name)"
    using assms by (rule shared_modules_of_distinct)
next
  fix name name' :: string
  assume "name \<noteq> name'"
  with assms show "set (shared_modules_of rp root name)
                     \<inter> set (shared_modules_of rp root name') = {}"
    by (rule shared_modules_disjoint)
qed

lemma shared_modules_set:
  assumes "wf_node root"
  shows "set (concat (map (shared_modules_of rp root) shared_patterns))
     = {join_path (name # p) |name p. name \<in> set shared_patterns \<and> p \<noteq> []
          \<and> (name # p, True) \<in> paths_of root
          \<and> path_suffix (last p) \<in> set (map fst language_extensions)
          \<and> \<not> ignored rp (name # p)}"
  by (auto simp: shared_modules_of_set [OF assms])



lemma source_directories_code:
  "set (source_directories (discover_source_code rp root))
     = {node_name d |d. d \<in> set (dir_entries root) \<and> source_dir d}"
  by (auto simp: discover_fields source_dirs_loop_filter)

text \<open>
  Claim C8 (the source directories are exactly the top-level directories, not dot-named
  and not ignored, below which at least one file with a known extension exists).  The
  first loop asks \<open>rglob("*" + ext)\<close> for any path at all, and a directory whose name
  ends like a source file answers it: \<open>assets\<close>, which holds nothing but the directory
  \<open>chart.js\<close> with a \<open>README.md\<close>, is listed as a source directory although no file
  with a known extension lies below it.  The loops that count files and collect shared
  modules do ask \<open>is_file()\<close>.
\<close>

theorem source_directories_counts_directory_names:
  "\<not> has_source_file (Dir ''assets'' [Dir ''chart.js'' [File ''README.md'']])
   \<and> source_directories
        (discover_source_code [''/'', ''home'', ''u'', ''proj'']
           (Dir ''proj'' [Dir ''assets'' [Dir ''chart.js'' [File ''README.md'']]]))
      = [''assets'']"
  by code_simp

text \<open>
  Claim C10.  For every directory tree (sibling names distinct and free of \<open>/\<close>, as a
  file system has them) the lists \<open>source_directories\<close>, \<open>entry_points\<close> and
  \<open>shared_modules\<close> of the report are sorted lexicographically and hold no entry
  twice; hence two enumerations of the same tree, that is two trees with the same set
  of paths, give the same three lists.
\<close>

theorem discover_sorted_fields:
  assumes "wf_node root" "wf_node root'" "paths_of root' = paths_of root"
  shows "sorted (source_directories (discover_source_code rp root))
     \<and> distinct (source_directories (discover_source_code rp root))
     \<and> sorted (entry_points (discover_source_code rp root))
     \<and> distinct (entry_points (discover_source_code rp root))
     \<and> sorted (shared_modules (discover_source_code rp root))
     \<and> distinct (shared_modules (discover_source_code rp root))
     \<and> source_directories (discover_source_code rp root')
         = source_directories (discover_source_code rp root)
     \<and> entry_points (discover_source_code rp root')
         = entry_points (discover_source_code rp root)
     \<and> shared_modules (discover_source_code rp root')
         = shared_modules (discover_source_code rp root)"
proof -
  have sd: "distinct (source_directories (discover_source_code rp t))" if "wf_node t" for t
    using source_dirs_distinct [OF that] by (simp add: discover_fields)
  have ed: "distinct (entry_points (discover_source_code rp t))" if "wf_node t" for t
    using entry_points_distinct [OF that] by (simp add: discover_fields)
  have md: "distinct (shared_modules (discover_source_code rp t))" if "wf_node t" for t
    using shared_modules_distinct [OF that] by (simp add: discover_fields)
  have ss: "sorted (source_directories (discover_source_code rp t))" for t
    by (simp add: discover_fields)
  have es: "sorted (entry_points (discover_source_code rp t))" for t
    by (simp add: discover_fields)
  have ms: "sorted (shared_modules (discover_source_code rp t))" for t
    by (simp add: discover_fields)
  have s_set: "set (source_directories (discover_source_code rp root'))
               = set (source_directories (discover_source_code rp root))"
    by (simp only: discover_fields set_sort source_dirs_set assms(3))
  have e_set: "set (entry_points (discover_source_code rp root'))
               = set (entry_points (discover_source_code rp root))"
    by (simp only: discover_fields set_sort entry_points_set assms(3))
  have m_set: "set (shared_modules (discover_source_code rp root'))
               = set (shared_modules (discover_source_code rp root))"
    by (simp only: discover_fields set_sort shared_modules_set [OF assms(1)]
        shared_modules_set [OF assms(2)] assms(3))
  have s_eq: "source_directories (discover_source_code rp root')
              = source_directories (discover_source_code rp root)"
    using ss sd [OF assms(2)] ss sd [OF assms(1)] s_set by (rule sorted_distinct_set_unique)
  have e_eq: "entry_points (discover_source_code rp root')
              = entry_points (discover_source_code rp root)"
    using es ed [OF assms(2)] es ed [OF assms(1)] e_set by (rule sorted_distinct_set_unique)
  have m_eq: "shared_modules (discover_source_code rp root')
              = shared_modules (discover_source_code rp root)"
    using ms md [OF assms(2)] ms md [OF assms(1)] m_set by (rule sorted_distinct_set_unique)
  from ss sd [OF assms(1)] es ed [OF assms(1)] ms md [OF assms(1)] s_eq e_eq m_eq
  show ?thesis by (intro conjI)
qed

theorem discover_sorted_fields_witness:
  "source_directories
     (discover_source_code [''/'', ''home'', ''u'', ''proj'']
        (Dir ''proj'' [File ''setup.py'', Dir ''lib'' [File ''util.py''],
                        Dir ''src'' [File ''main.py'', File ''app.py'']]))
     = [''lib'', ''src'']
   \<and> entry_points
     (discover_source_code [''/'', ''home'', ''u'', ''proj'']
        (Dir ''proj'' [File ''setup.py'', Dir ''lib'' [File ''util.py''],
                        Dir ''src'' [File ''main.py'', File ''app.py'']]))
     = [''setup.py'', ''src/app.py'', ''src/main.py'']
   \<and> shared_modules
     (discover_source_code [''/'', ''home'', ''u'', ''proj'']
        (Dir ''proj'' [File ''setup.py'', Dir ''lib'' [File ''util.py''],
                        Dir ''src'' [File ''main.py'', File ''app.py'']]))
     = [''lib/util.py'']"
proof -
  let ?a = "Dir ''proj'' [Dir ''src'' [File ''app.py'', File ''main.py''],
                          Dir ''lib'' [File ''util.py''], File ''setup.py'']"
  let ?b = "Dir ''proj'' [File ''setup.py'', Dir ''lib'' [File ''util.py''],
                          Dir ''src'' [File ''main.py'', File ''app.py'']]"
  have wa: "wf_node ?a" by simp
  have wb: "wf_node ?b" by simp
  have same: "paths_of ?b = paths_of ?a" by auto
  have a: "source_directories (discover_source_code [''/'', ''home'', ''u'', ''proj''] ?a)
             = [''lib'', ''src'']
           \<and> entry_points (discover_source_code [''/'', ''home'', ''u'', ''proj''] ?a)
             = [''setup.py'', ''src/app.py'', ''src/main.py'']
           \<and> shared_modules (discover_source_code [''/'', ''home'', ''u'', ''proj''] ?a)
             = [''lib/util.py'']"
    by code_simp
  from discover_sorted_fields [OF wa wb same, of "[''/'', ''home'', ''u'', ''proj'']"] a
  show ?thesis by simp
qed



lemma path_suffix_iff:
  assumes e: "CHR ''.'' \<notin> set e" "e \<noteq> []"
  shows "path_suffix n = CHR ''.'' # e \<longleftrightarrow> endswith n (CHR ''.'' # e) \<and> n \<noteq> CHR ''.'' # e"
proof
  assume ps: "path_suffix n = CHR ''.'' # e"
  let ?P = "\<lambda>c. c \<noteq> CHR ''.''"
  from ps have dot: "CHR ''.'' \<in> set n"
    and tw: "rev (takeWhile ?P (rev n)) = e"
    and len: "length e + 1 < length n"
    by (auto simp: path_suffix_def Let_def split: if_splits)
  from dot have "dropWhile ?P (rev n) \<noteq> []" by (simp add: dropWhile_eq_Nil_conv)
  then obtain x rest where dw: "dropWhile ?P (rev n) = x # rest"
    by (cases "dropWhile ?P (rev n)") auto
  then have "\<not> ?P x" using hd_dropWhile [of ?P "rev n"] by simp
  then have x: "x = CHR ''.''" by simp
  have "rev n = takeWhile ?P (rev n) @ dropWhile ?P (rev n)" by simp
  then have "rev (rev n) = rev (takeWhile ?P (rev n) @ CHR ''.'' # rest)"
    by (simp only: dw x)
  then have n: "n = rev rest @ CHR ''.'' # e"
    using tw by simp
  then show "endswith n (CHR ''.'' # e) \<and> n \<noteq> CHR ''.'' # e"
    using len by (auto simp: endswith_def)
next
  assume a: "endswith n (CHR ''.'' # e) \<and> n \<noteq> CHR ''.'' # e"
  let ?P = "\<lambda>c. c \<noteq> CHR ''.''"
  define pre where "pre = take (length n - length (CHR ''.'' # e)) n"
  from a have n: "n = pre @ CHR ''.'' # e"
    unfolding pre_def endswith_def by (metis append_take_drop_id)
  with a have pre: "pre \<noteq> []" by auto
  have "takeWhile ?P (rev e @ CHR ''.'' # rev pre) = rev e @ takeWhile ?P (CHR ''.'' # rev pre)"
    by (rule takeWhile_append2) (use e(1) in auto)
  then have "takeWhile ?P (rev n) = rev e"
    by (simp add: n)
  with e(2) pre show "path_suffix n = CHR ''.'' # e"
    by (simp add: path_suffix_def Let_def n)
qed

lemma extension_shape:
  "ext \<in> set (map fst language_extensions)
   \<Longrightarrow> \<exists>e. ext = CHR ''.'' # e \<and> CHR ''.'' \<notin> set e \<and> e \<noteq> []"
  by (auto simp: language_extensions_def)

lemma has_source_file_iff:
  "has_source_file d \<longleftrightarrow>
     (\<exists>p. (p, True) \<in> paths_of d \<and> path_suffix (last p) \<in> set (map fst language_extensions))"
proof (induction d)
  case (File n)
  show ?case by simp
next
  case (Dir n cs)
  let ?ok = "\<lambda>name. path_suffix name \<in> set (map fst language_extensions)"
  have last_cons: "last (x # p) = last p" if "(p, f) \<in> paths_of c" for x p f c
    using paths_of_nonempty [OF that] by simp
  have "has_source_file (Dir n cs) \<longleftrightarrow>
          (\<exists>c\<in>set cs. (is_file c \<and> ?ok (node_name c))
                         \<or> (\<exists>p. (p, True) \<in> paths_of c \<and> ?ok (last p)))"
    using Dir.IH by simp
  also have "\<dots> \<longleftrightarrow> (\<exists>p. (p, True) \<in> paths_of (Dir n cs) \<and> ?ok (last p))"
  proof
    assume "\<exists>c\<in>set cs. (is_file c \<and> ?ok (node_name c))
                         \<or> (\<exists>p. (p, True) \<in> paths_of c \<and> ?ok (last p))"
    then obtain c where c: "c \<in> set cs"
      and d: "(is_file c \<and> ?ok (node_name c)) \<or> (\<exists>p. (p, True) \<in> paths_of c \<and> ?ok (last p))"
      by blast
    from d show "\<exists>p. (p, True) \<in> paths_of (Dir n cs) \<and> ?ok (last p)"
    proof
      assume "is_file c \<and> ?ok (node_name c)"
      with c have "([node_name c], True) \<in> paths_of (Dir n cs)" "?ok (last [node_name c])"
        by force+
      then show ?thesis by blast
    next
      assume "\<exists>p. (p, True) \<in> paths_of c \<and> ?ok (last p)"
      then obtain p where p: "(p, True) \<in> paths_of c" "?ok (last p)" by blast
      with c have "(node_name c # p, True) \<in> paths_of (Dir n cs)" by force
      moreover from p last_cons have "?ok (last (node_name c # p))" by simp
      ultimately show ?thesis by blast
    qed
  next
    assume "\<exists>p. (p, True) \<in> paths_of (Dir n cs) \<and> ?ok (last p)"
    then obtain p where p: "(p, True) \<in> paths_of (Dir n cs)" "?ok (last p)" by blast
    from p(1) obtain c where c: "c \<in> set cs"
      and d: "(p = [node_name c] \<and> is_file c)
              \<or> (\<exists>q. p = node_name c # q \<and> (q, True) \<in> paths_of c)"
      by auto
    from d show "\<exists>c\<in>set cs. (is_file c \<and> ?ok (node_name c))
                         \<or> (\<exists>p. (p, True) \<in> paths_of c \<and> ?ok (last p))"
    proof
      assume "p = [node_name c] \<and> is_file c"
      with p(2) c show ?thesis by auto
    next
      assume "\<exists>q. p = node_name c # q \<and> (q, True) \<in> paths_of c"
      then obtain q where q: "p = node_name c # q" "(q, True) \<in> paths_of c" by blast
      with p(2) last_cons have "?ok (last q)" by simp
      with q(2) c show ?thesis by blast
    qed
  qed
  finally show ?case .
qed

lemma has_source_plain:
  assumes "plain_tree d"
  shows "has_source d \<longleftrightarrow> has_source_file d"
proof
  assume "has_source d"
  then obtain ext p f where x: "ext \<in> set (map fst language_extensions)"
      "(p, f) \<in> paths_of d" "endswith (last p) ext"
    unfolding has_source_iff by blast
  with assms have f: "f" and ne: "last p \<noteq> ext"
    unfolding plain_tree_def by blast+
  from extension_shape [OF x(1)] obtain e where e: "ext = CHR ''.'' # e"
      "CHR ''.'' \<notin> set e" "e \<noteq> []"
    by blast
  from path_suffix_iff [OF e(2,3), of "last p"] x(3) ne have "path_suffix (last p) = ext"
    by (simp add: e(1))
  with x(1,2) f show "has_source_file d"
    unfolding has_source_file_iff by auto
next
  assume "has_source_file d"
  then obtain p where p: "(p, True) \<in> paths_of d"
      "path_suffix (last p) \<in> set (map fst language_extensions)"
    unfolding has_source_file_iff by blast
  from extension_shape [OF p(2)] obtain e where e: "path_suffix (last p) = CHR ''.'' # e"
      "CHR ''.'' \<notin> set e" "e \<noteq> []"
    by blast
  from path_suffix_iff [OF e(2,3), of "last p"] e(1)
  have "endswith (last p) (path_suffix (last p))" by simp
  with p show "has_source d"
    unfolding has_source_iff by blast
qed

lemma source_directories_plain:
  assumes "\<forall>d\<in>set (dir_entries root). plain_tree d"
  shows "set (source_directories (discover_source_code rp root))
     = {node_name d |d. d \<in> set (dir_entries root) \<and> is_dir d
          \<and> \<not> startswith (node_name d) ''.'' \<and> node_name d \<notin> set ignore_dirs
          \<and> has_source_file d}"
  using assms has_source_plain
  unfolding source_directories_code source_dir_def by blast

end
